theory Spec2Isabelle
  imports Main "HOL-Library.Word"
begin

unbundle bit_operations_syntax

section \<open>The header \<open>kernel/vmrun.h\<close>: constants and enumerations\<close>

text \<open>
  The C types of the header on its x86-64 target: \<open>u8\<close>, \<open>u16\<close>, \<open>u32\<close>, \<open>u64\<close> are
  unsigned words of that width, \<open>unsigned long\<close> and \<open>gfn_t\<close> are 64 bits wide, an
  \<open>unsigned int\<close> constant such as \<open>1U\<close> is a 32-bit word and \<open>1ULL\<close> a 64-bit word.
  Plain \<open>#define\<close>d integers and enumerators are C \<open>int\<close>s far away from the limits of
  that type: slot counts and slot ids are modelled as \<open>int\<close>, enumerators that are used as
  bit numbers as \<open>nat\<close>.
\<close>

type_synonym u8 = "8 word"
type_synonym u16 = "16 word"
type_synonym u32 = "32 word"
type_synonym u64 = "64 word"

subsection \<open>VCPU and memory-slot limits\<close>

definition VMRUN_MAX_VCPUS :: int where
  "VMRUN_MAX_VCPUS = 288"

definition VMRUN_SOFT_MAX_VCPUS :: int where
  "VMRUN_SOFT_MAX_VCPUS = 240"

definition VMRUN_MAX_VCPU_ID :: int where
  "VMRUN_MAX_VCPU_ID = 1023"

definition VMRUN_USER_MEM_SLOTS :: int where
  "VMRUN_USER_MEM_SLOTS = 509"

definition VMRUN_PRIVATE_MEM_SLOTS :: int where
  "VMRUN_PRIVATE_MEM_SLOTS = 3"

definition VMRUN_MEM_SLOTS_NUM :: int where
  "VMRUN_MEM_SLOTS_NUM = VMRUN_USER_MEM_SLOTS + VMRUN_PRIVATE_MEM_SLOTS"

definition VMRUN_NR_PAGE_SIZES :: int where
  "VMRUN_NR_PAGE_SIZES = 3"

definition VMRUN_ADDRESS_SPACE_NUM :: int where
  "VMRUN_ADDRESS_SPACE_NUM = 2"

definition VMRUN_TSS_PRIVATE_MEMSLOT :: int where
  "VMRUN_TSS_PRIVATE_MEMSLOT = VMRUN_USER_MEM_SLOTS + 0"

definition VMRUN_APIC_ACCESS_PAGE_PRIVATE_MEMSLOT :: int where
  "VMRUN_APIC_ACCESS_PAGE_PRIVATE_MEMSLOT = VMRUN_USER_MEM_SLOTS + 1"

definition VMRUN_IDENTITY_PAGETABLE_PRIVATE_MEMSLOT :: int where
  "VMRUN_IDENTITY_PAGETABLE_PRIVATE_MEMSLOT = VMRUN_USER_MEM_SLOTS + 2"

text \<open>
  The ids of one address space index the arrays \<open>memslots[VMRUN_MEM_SLOTS_NUM]\<close> and
  \<open>id_to_index[VMRUN_MEM_SLOTS_NUM]\<close> of \<open>struct vmrun_memslots\<close>: an id is valid when it is
  an index of these arrays. The first \<open>VMRUN_USER_MEM_SLOTS\<close> of them are the ones exposed
  to userspace; the header's comment on \<open>VMRUN_PRIVATE_MEM_SLOTS\<close> calls the others
  "memory slots that are not exposed to userspace".
\<close>

definition slot_ids :: "int set" where
  "slot_ids = {0 ..< VMRUN_MEM_SLOTS_NUM}"

definition user_slot_ids :: "int set" where
  "user_slot_ids = {0 ..< VMRUN_USER_MEM_SLOTS}"

definition private_slot_ids :: "int set" where
  "private_slot_ids = {VMRUN_USER_MEM_SLOTS ..< VMRUN_MEM_SLOTS_NUM}"

subsection \<open>Pending-request bits\<close>

text \<open>
  Modelled from the spec: the macros \<open>GENMASK\<close> and \<open>BIT\<close> come from the kernel's headers
  and are not part of \<open>vmrun.h\<close>. \<open>GENMASK(h, l)\<close> is the \<open>unsigned long\<close> with exactly the
  bits \<open>l\<close> to \<open>h\<close> set, computed as the kernel does:
  \<open>((~0UL) - (1UL << l) + 1) & (~0UL >> (BITS_PER_LONG - 1 - h))\<close>; \<open>BIT(n)\<close> is
  \<open>1UL << n\<close>.
\<close>

definition GENMASK :: "nat \<Rightarrow> nat \<Rightarrow> u64" where
  "GENMASK h l = ((NOT 0) - push_bit l 1 + 1) AND drop_bit (64 - 1 - h) (NOT 0)"

definition BIT :: "nat \<Rightarrow> u64" where
  "BIT n = push_bit n 1"

definition VMRUN_REQUEST_MASK :: u64 where
  "VMRUN_REQUEST_MASK = GENMASK 7 0"

definition VMRUN_REQUEST_NO_WAKEUP :: u64 where
  "VMRUN_REQUEST_NO_WAKEUP = BIT 8"

definition VMRUN_REQUEST_WAIT :: u64 where
  "VMRUN_REQUEST_WAIT = BIT 9"

definition VMRUN_REQ_TLB_FLUSH :: u64 where
  "VMRUN_REQ_TLB_FLUSH = (0 OR VMRUN_REQUEST_WAIT OR VMRUN_REQUEST_NO_WAKEUP)"

subsection \<open>Page-fault error code bits\<close>

definition PFERR_PRESENT_BIT :: nat where "PFERR_PRESENT_BIT = 0"
definition PFERR_WRITE_BIT :: nat where "PFERR_WRITE_BIT = 1"
definition PFERR_USER_BIT :: nat where "PFERR_USER_BIT = 2"
definition PFERR_RSVD_BIT :: nat where "PFERR_RSVD_BIT = 3"
definition PFERR_FETCH_BIT :: nat where "PFERR_FETCH_BIT = 4"
definition PFERR_PK_BIT :: nat where "PFERR_PK_BIT = 5"
definition PFERR_GUEST_FINAL_BIT :: nat where "PFERR_GUEST_FINAL_BIT = 32"
definition PFERR_GUEST_PAGE_BIT :: nat where "PFERR_GUEST_PAGE_BIT = 33"

text \<open>The first six masks are \<open>1U << bit\<close> (32 bits wide), the last two \<open>1ULL << bit\<close>.\<close>

definition PFERR_PRESENT_MASK :: u32 where
  "PFERR_PRESENT_MASK = push_bit PFERR_PRESENT_BIT 1"

definition PFERR_WRITE_MASK :: u32 where
  "PFERR_WRITE_MASK = push_bit PFERR_WRITE_BIT 1"

definition PFERR_USER_MASK :: u32 where
  "PFERR_USER_MASK = push_bit PFERR_USER_BIT 1"

definition PFERR_RSVD_MASK :: u32 where
  "PFERR_RSVD_MASK = push_bit PFERR_RSVD_BIT 1"

definition PFERR_FETCH_MASK :: u32 where
  "PFERR_FETCH_MASK = push_bit PFERR_FETCH_BIT 1"

definition PFERR_PK_MASK :: u32 where
  "PFERR_PK_MASK = push_bit PFERR_PK_BIT 1"

definition PFERR_GUEST_FINAL_MASK :: u64 where
  "PFERR_GUEST_FINAL_MASK = push_bit PFERR_GUEST_FINAL_BIT 1"

definition PFERR_GUEST_PAGE_MASK :: u64 where
  "PFERR_GUEST_PAGE_MASK = push_bit PFERR_GUEST_PAGE_BIT 1"

text \<open>
  The page-fault hook of \<open>struct vmrun_mmu\<close> is declared
  \<open>int (*page_fault)(struct vmrun_vcpu *vcpu, gva_t gva, u32 err)\<close>: its error-bits
  parameter \<open>err\<close> is a \<open>u32\<close>. A 32-bit mask is passed as it is; a 64-bit value passed
  for \<open>err\<close> is converted to \<open>u32\<close> by C's rule for unsigned types, which keeps the low 32
  bits.
\<close>

definition page_fault_err :: "u64 \<Rightarrow> u32" where
  "page_fault_err e = ucast e"

subsection \<open>Sections of the guest control block\<close>

text \<open>
  The anonymous enumeration of the dirty sections: the first enumerator is 0 and each
  further one is its predecessor plus one.
\<close>

definition VMCB_INTERCEPTS :: nat where "VMCB_INTERCEPTS = 0"
definition VMCB_PERM_MAP :: nat where "VMCB_PERM_MAP = VMCB_INTERCEPTS + 1"
definition VMCB_ASID :: nat where "VMCB_ASID = VMCB_PERM_MAP + 1"
definition VMCB_INTR :: nat where "VMCB_INTR = VMCB_ASID + 1"
definition VMCB_NPT :: nat where "VMCB_NPT = VMCB_INTR + 1"
definition VMCB_CR :: nat where "VMCB_CR = VMCB_NPT + 1"
definition VMCB_DR :: nat where "VMCB_DR = VMCB_CR + 1"
definition VMCB_DT :: nat where "VMCB_DT = VMCB_DR + 1"
definition VMCB_SEG :: nat where "VMCB_SEG = VMCB_DT + 1"
definition VMCB_CR2 :: nat where "VMCB_CR2 = VMCB_SEG + 1"
definition VMCB_LBR :: nat where "VMCB_LBR = VMCB_CR2 + 1"
definition VMCB_AVIC :: nat where "VMCB_AVIC = VMCB_LBR + 1"
definition VMCB_DIRTY_MAX :: nat where "VMCB_DIRTY_MAX = VMCB_AVIC + 1"

text \<open>"TPR and CR2 are always written before VMRUN".\<close>

definition VMCB_ALWAYS_DIRTY_MASK :: u32 where
  "VMCB_ALWAYS_DIRTY_MASK = (push_bit VMCB_INTR 1 OR push_bit VMCB_CR2 1)"

subsection \<open>Register numbers\<close>

text \<open>\<open>enum vmrun_reg\<close>: sixteen explicit values, then two implicit ones.\<close>

definition VCPU_REGS_RAX :: nat where "VCPU_REGS_RAX = 0"
definition VCPU_REGS_RCX :: nat where "VCPU_REGS_RCX = 1"
definition VCPU_REGS_RDX :: nat where "VCPU_REGS_RDX = 2"
definition VCPU_REGS_RBX :: nat where "VCPU_REGS_RBX = 3"
definition VCPU_REGS_RSP :: nat where "VCPU_REGS_RSP = 4"
definition VCPU_REGS_RBP :: nat where "VCPU_REGS_RBP = 5"
definition VCPU_REGS_RSI :: nat where "VCPU_REGS_RSI = 6"
definition VCPU_REGS_RDI :: nat where "VCPU_REGS_RDI = 7"
definition VCPU_REGS_R8 :: nat where "VCPU_REGS_R8 = 8"
definition VCPU_REGS_R9 :: nat where "VCPU_REGS_R9 = 9"
definition VCPU_REGS_R10 :: nat where "VCPU_REGS_R10 = 10"
definition VCPU_REGS_R11 :: nat where "VCPU_REGS_R11 = 11"
definition VCPU_REGS_R12 :: nat where "VCPU_REGS_R12 = 12"
definition VCPU_REGS_R13 :: nat where "VCPU_REGS_R13 = 13"
definition VCPU_REGS_R14 :: nat where "VCPU_REGS_R14 = 14"
definition VCPU_REGS_R15 :: nat where "VCPU_REGS_R15 = 15"
definition VCPU_REGS_RIP :: nat where "VCPU_REGS_RIP = VCPU_REGS_R15 + 1"
definition NR_VCPU_REGS :: nat where "NR_VCPU_REGS = VCPU_REGS_RIP + 1"

text \<open>\<open>enum vmrun_reg_ex\<close> continues the numbering at \<open>NR_VCPU_REGS\<close>.\<close>

definition VCPU_EXREG_PDPTR :: nat where "VCPU_EXREG_PDPTR = NR_VCPU_REGS"
definition VCPU_EXREG_CR3 :: nat where "VCPU_EXREG_CR3 = VCPU_EXREG_PDPTR + 1"
definition VCPU_EXREG_RFLAGS :: nat where "VCPU_EXREG_RFLAGS = VCPU_EXREG_CR3 + 1"
definition VCPU_EXREG_SEGMENTS :: nat where "VCPU_EXREG_SEGMENTS = VCPU_EXREG_RFLAGS + 1"

text \<open>
  The registers the bitmasks \<open>regs_avail\<close> and \<open>regs_dirty\<close> of \<open>struct vmrun_vcpu\<close> track,
  in the order of the two enumerations: the general registers, which index
  \<open>regs[NR_VCPU_REGS]\<close>, and the extended registers.
\<close>

definition vcpu_regs :: "nat list" where
  "vcpu_regs =
    [VCPU_REGS_RAX, VCPU_REGS_RCX, VCPU_REGS_RDX, VCPU_REGS_RBX,
     VCPU_REGS_RSP, VCPU_REGS_RBP, VCPU_REGS_RSI, VCPU_REGS_RDI,
     VCPU_REGS_R8, VCPU_REGS_R9, VCPU_REGS_R10, VCPU_REGS_R11,
     VCPU_REGS_R12, VCPU_REGS_R13, VCPU_REGS_R14, VCPU_REGS_R15,
     VCPU_REGS_RIP]"

definition vcpu_exregs :: "nat list" where
  "vcpu_exregs =
    [VCPU_EXREG_PDPTR, VCPU_EXREG_CR3, VCPU_EXREG_RFLAGS, VCPU_EXREG_SEGMENTS]"

text \<open>The width in bits of \<open>u32 regs_avail\<close> and \<open>u32 regs_dirty\<close>.\<close>

definition regs_mask_bits :: nat where
  "regs_mask_bits = LENGTH(32)"

section \<open>Data structures of the header\<close>

text \<open>The anonymous enumeration of the guest modes of a VCPU (\<open>vmrun_vcpu.mode\<close>).\<close>

datatype guest_mode =
  OUTSIDE_GUEST_MODE | IN_GUEST_MODE | EXITING_GUEST_MODE | READING_SHADOW_PAGE_TABLES

text \<open>
  \<open>enum vmrun_reg\<close> as a type: the seventeen general registers that index
  \<open>regs[NR_VCPU_REGS]\<close>, and the number the enumeration gives each.
\<close>

datatype vmrun_reg =
  RAX | RCX | RDX | RBX | RSP | RBP | RSI | RDI |
  R8 | R9 | R10 | R11 | R12 | R13 | R14 | R15 | RIP

fun reg_nr :: "vmrun_reg \<Rightarrow> nat" where
  "reg_nr RAX = VCPU_REGS_RAX"
| "reg_nr RCX = VCPU_REGS_RCX"
| "reg_nr RDX = VCPU_REGS_RDX"
| "reg_nr RBX = VCPU_REGS_RBX"
| "reg_nr RSP = VCPU_REGS_RSP"
| "reg_nr RBP = VCPU_REGS_RBP"
| "reg_nr RSI = VCPU_REGS_RSI"
| "reg_nr RDI = VCPU_REGS_RDI"
| "reg_nr R8 = VCPU_REGS_R8"
| "reg_nr R9 = VCPU_REGS_R9"
| "reg_nr R10 = VCPU_REGS_R10"
| "reg_nr R11 = VCPU_REGS_R11"
| "reg_nr R12 = VCPU_REGS_R12"
| "reg_nr R13 = VCPU_REGS_R13"
| "reg_nr R14 = VCPU_REGS_R14"
| "reg_nr R15 = VCPU_REGS_R15"
| "reg_nr RIP = VCPU_REGS_RIP"

text \<open>
  \<open>struct vmrun_cpu_data\<close>, the per-physical-CPU ASID state. The pointers \<open>tss_desc\<close> and
  \<open>save_area\<close> refer to host memory that none of the properties below reads; they are
  left out.
\<close>

record vmrun_cpu_data =
  cpu :: int
  asid_generation :: u64
  max_asid :: u32
  next_asid :: u32

text \<open>
  Modelled from the spec: \<open>struct vmcb\<close>, the guest control block behind the pointer
  \<open>vmrun_vcpu.vmcb\<close>, is not declared in the header. Of the hardware-defined block the
  model keeps what the spec's operations touch: the hardware-visible copy of the general
  registers, the address-space tag (ASID) the next entry runs under, and the request for a
  full TLB flush on that entry.
\<close>

record vmcb =
  save_regs :: "vmrun_reg \<Rightarrow> u64"
  asid :: u32
  tlb_flush_all :: bool

text \<open>
  \<open>struct vmrun_vcpu\<close>. Kept are the identity of the VCPU, its guest mode, its pending
  requests, its control block, the generation of its ASID, the lazily cached register file
  with its two bitmasks, and the cached control registers; the array \<open>regs\<close> is a function
  on the register enumeration. Locks, list heads, notifier hooks and the pointers to
  host-side objects are left out. The field \<open>asid_generation\<close> is named
  \<open>vcpu_asid_generation\<close> here and \<open>cpu\<close> is named \<open>vcpu_cpu\<close>, since the per-CPU record
  has fields of the same names.
\<close>

record vmrun_vcpu =
  vcpu_cpu :: int
  vcpu_id :: int
  mode :: guest_mode
  requests :: u64
  vmcb :: vmcb
  vcpu_asid_generation :: u64
  next_rip :: u64
  regs :: "vmrun_reg \<Rightarrow> u64"
  regs_avail :: u32
  regs_dirty :: u32
  cr0 :: u64
  cr2 :: u64
  cr3 :: u64
  cr4 :: u64
  cr8 :: u64
  hflags :: u32
  efer :: u64

section \<open>ASID allocation\<close>

text \<open>
  Modelled from the spec: the header declares the ASID state but no function on it. The
  spec (section 4.4): "Per physical CPU, tags are handed out by incrementing \<open>next_asid\<close>.
  When \<open>next_asid\<close> would exceed \<open>max_asid\<close>, the generation counter increments and
  \<open>next_asid\<close> resets to the first usable value". The first usable value is 1: tag 0 is
  the host's, and the spec's own count (\<open>N + 1\<close> assignments for one wrap-around with
  \<open>max_asid = N\<close>) has the \<open>N\<close> usable tags 1 to \<open>N\<close>.
\<close>

definition FIRST_ASID :: u32 where
  "FIRST_ASID = 1"

text \<open>
  Modelled from the spec: one tag assignment on a physical CPU (section 4.4, as quoted
  above), giving the tag handed out and the state after it. The counters wrap as their C
  types do (\<open>u32\<close>, \<open>u64\<close>).
\<close>

definition new_asid :: "vmrun_cpu_data \<Rightarrow> u32 \<times> vmrun_cpu_data" where
  "new_asid sd =
    (let sd1 = (if max_asid sd < next_asid sd
                then sd\<lparr>asid_generation := asid_generation sd + 1, next_asid := FIRST_ASID\<rparr>
                else sd)
     in (next_asid sd1, sd1\<lparr>next_asid := next_asid sd1 + 1\<rparr>))"

text \<open>
  Modelled from the spec: the state of a physical CPU after \<open>n\<close> tag assignments in a row
  (the spec's "after \<open>N+1\<close> tag assignments on one physical core").
\<close>

fun assign_asids :: "nat \<Rightarrow> vmrun_cpu_data \<Rightarrow> vmrun_cpu_data" where
  "assign_asids 0 sd = sd"
| "assign_asids (Suc n) sd = assign_asids n (snd (new_asid sd))"

text \<open>
  Modelled from the spec: the step before a guest entry of a VCPU on a physical CPU. "If
  the VCPU's cached generation differs from that core's current generation, a fresh tag is
  assigned, the VCPU's cached generation is updated, and a full TLB flush is forced for
  this entry (set in the control block); otherwise the VCPU's existing tag is reused and
  no flush is forced."
\<close>

definition pre_run :: "vmrun_vcpu \<Rightarrow> vmrun_cpu_data \<Rightarrow> vmrun_vcpu \<times> vmrun_cpu_data" where
  "pre_run vcpu sd =
    (if vcpu_asid_generation vcpu \<noteq> asid_generation sd
     then (let (tag, sd') = new_asid sd
           in (vcpu\<lparr>vmcb := (vmcb vcpu)\<lparr>asid := tag, tlb_flush_all := True\<rparr>,
                     vcpu_asid_generation := asid_generation sd'\<rparr>, sd'))
     else (vcpu\<lparr>vmcb := (vmcb vcpu)\<lparr>tlb_flush_all := False\<rparr>\<rparr>, sd))"

section \<open>The lazy register cache\<close>

text \<open>
  Modelled from the spec: the header only says that "rip and regs accesses must go through
  vmrun_{register,rip}_{read,write} functions" and does not define them. The spec (section
  4.5): "reading a register first checks the "available" bitmask; if unset, the value is
  pulled from the hardware-visible state and the bit is set. Writing sets both "available"
  and "dirty". Immediately before guest entry, every dirty register is flushed to
  hardware-visible state and the dirty bitmask is cleared".
\<close>

definition reg_bit :: "vmrun_reg \<Rightarrow> u32" where
  "reg_bit r = push_bit (reg_nr r) 1"

text \<open>
  Modelled from the spec: "the value is pulled from the hardware-visible state and the bit
  is set", for one register.
\<close>

definition cache_reg :: "vmrun_vcpu \<Rightarrow> vmrun_reg \<Rightarrow> vmrun_vcpu" where
  "cache_reg vcpu r =
    vcpu\<lparr>regs := (regs vcpu)(r := save_regs (vmcb vcpu) r),
         regs_avail := regs_avail vcpu OR reg_bit r\<rparr>"

text \<open>
  Modelled from the spec: where a read takes its value from, the cache or the
  hardware-visible state (a fetch).
\<close>

datatype read_source = FromCache | Fetched

text \<open>
  Modelled from the spec: a read, "reading a register first checks the "available"
  bitmask; if unset, the value is pulled from the hardware-visible state and the bit is
  set". The result is the value with its source, and the VCPU after the read.
\<close>

definition register_read :: "vmrun_vcpu \<Rightarrow> vmrun_reg \<Rightarrow> (u64 \<times> read_source) \<times> vmrun_vcpu" where
  "register_read vcpu r =
    (if bit (regs_avail vcpu) (reg_nr r)
     then ((regs vcpu r, FromCache), vcpu)
     else (let vcpu' = cache_reg vcpu r in ((regs vcpu' r, Fetched), vcpu')))"

text \<open>Modelled from the spec: a write, "Writing sets both "available" and "dirty"".\<close>

definition register_write :: "vmrun_vcpu \<Rightarrow> vmrun_reg \<Rightarrow> u64 \<Rightarrow> vmrun_vcpu" where
  "register_write vcpu r val =
    vcpu\<lparr>regs := (regs vcpu)(r := val),
         regs_avail := regs_avail vcpu OR reg_bit r,
         regs_dirty := regs_dirty vcpu OR reg_bit r\<rparr>"

text \<open>
  Modelled from the spec: the flush, "Immediately before guest entry, every dirty register
  is flushed to hardware-visible state and the dirty bitmask is cleared".
\<close>

definition flush_dirty_regs :: "vmrun_vcpu \<Rightarrow> vmrun_vcpu" where
  "flush_dirty_regs vcpu =
    vcpu\<lparr>vmcb := (vmcb vcpu)\<lparr>save_regs :=
             (\<lambda>r. if bit (regs_dirty vcpu) (reg_nr r) then regs vcpu r
                  else save_regs (vmcb vcpu) r)\<rparr>,
         regs_dirty := 0\<rparr>"

text \<open>
  Modelled from the spec: the register accesses of a VCPU thread outside the guest: a read,
  a write, the flush.
\<close>

datatype reg_access = Read vmrun_reg | Write vmrun_reg u64 | Flush

text \<open>Modelled from the spec: the VCPU after one register access.\<close>

fun reg_step :: "vmrun_vcpu \<Rightarrow> reg_access \<Rightarrow> vmrun_vcpu" where
  "reg_step vcpu (Read r) = snd (register_read vcpu r)"
| "reg_step vcpu (Write r val) = register_write vcpu r val"
| "reg_step vcpu Flush = flush_dirty_regs vcpu"

text \<open>Modelled from the spec: the VCPU after a sequence of register accesses.\<close>

definition reg_steps :: "vmrun_vcpu \<Rightarrow> reg_access list \<Rightarrow> vmrun_vcpu" where
  "reg_steps vcpu accs = foldl reg_step vcpu accs"

section \<open>Address-space snapshots and the VM\<close>

text \<open>
  Modelled from the spec: the error taxonomy of section 7. The header declares no error
  codes.
\<close>

datatype error =
  CapacityExceeded | InvalidId | SlotNotFound | SlotInUse | Overlap |
  UnmappedGuestPage | StaleSnapshot | NotMapped

subsection \<open>Memory slots and address-space snapshots\<close>

text \<open>
  \<open>struct vmrun_memory_slot\<close>. The dirty bitmap is a pointer that may be null: an optional
  list of bits, one per page. The field \<open>id\<close> is named \<open>slot_id\<close>. The architecture
  extension \<open>arch\<close> holds pointers to tables (reverse maps, large-page information, page
  tracking) that are allocated with the slot and that none of the properties below reads;
  it is left out.
\<close>

record vmrun_memory_slot =
  base_gfn :: u64
  npages :: u64
  dirty_bitmap :: "bool list option"
  userspace_addr :: u64
  flags :: u32
  slot_id :: int

text \<open>
  \<open>struct vmrun_memslots\<close>, one snapshot of an address space. Of the array
  \<open>memslots[VMRUN_MEM_SLOTS_NUM]\<close> the list holds the \<open>used_slots\<close> entries in use;
  \<open>id_to_index\<close> is the table of \<open>VMRUN_MEM_SLOTS_NUM\<close> entries with \<open>-1\<close> for an id that has
  no slot.
\<close>

record vmrun_memslots =
  generation :: u64
  memslots :: "vmrun_memory_slot list"
  id_to_index :: "int list"
  lru_slot :: int
  used_slots :: int

text \<open>\<open>enum vmrun_mr_change\<close>.\<close>

datatype vmrun_mr_change =
  VMRUN_MR_CREATE | VMRUN_MR_DELETE | VMRUN_MR_MOVE | VMRUN_MR_FLAGS_ONLY

text \<open>
  When a snapshot is internally consistent. The header's comment on \<open>id_to_index\<close> calls
  it "the mapping table from slot id to the index in memslots[]": the slot ids are unique,
  every slot's id is a valid id whose entry of \<open>id_to_index\<close> is the index of that slot in
  the slot array, and every other entry of the table is \<open>-1\<close>.
\<close>

definition memslots_consistent :: "vmrun_memslots \<Rightarrow> bool" where
  "memslots_consistent ms \<longleftrightarrow>
    distinct (map slot_id (memslots ms)) \<and>
    used_slots ms = int (length (memslots ms)) \<and>
    length (id_to_index ms) = nat VMRUN_MEM_SLOTS_NUM \<and>
    (\<forall>k < length (memslots ms).
       0 \<le> slot_id (memslots ms ! k) \<and> slot_id (memslots ms ! k) < VMRUN_MEM_SLOTS_NUM \<and>
       id_to_index ms ! nat (slot_id (memslots ms ! k)) = int k) \<and>
    (\<forall>i < length (id_to_index ms).
       id_to_index ms ! i = -1 \<or>
       (0 \<le> id_to_index ms ! i \<and> id_to_index ms ! i < int (length (memslots ms)) \<and>
        slot_id (memslots ms ! nat (id_to_index ms ! i)) = int i))"

text \<open>
  Modelled from the spec: the header declares the snapshot and the four kinds of change
  but not the function that applies them; what follows, up to \<open>published\<close>, writes out
  section 4.2 of the spec. First the snapshot of a fresh address space (section 4.1:
  "initializes empty snapshots for both address spaces (generation 0)").
\<close>

definition empty_memslots :: vmrun_memslots where
  "empty_memslots =
    \<lparr>generation = 0, memslots = [], id_to_index = replicate (nat VMRUN_MEM_SLOTS_NUM) (-1),
     lru_slot = 0, used_slots = 0\<rparr>"

text \<open>
  Modelled from the spec: "the slot currently at \<open>slot_id\<close>", found through the table.
\<close>

definition id_to_memslot :: "vmrun_memslots \<Rightarrow> int \<Rightarrow> vmrun_memory_slot option" where
  "id_to_memslot ms i =
    (let k = id_to_index ms ! nat i
     in if k < 0 then None else Some (memslots ms ! nat k))"

text \<open>
  Modelled from the spec: the guest frames \<open>[base_gfn, base_gfn + npages)\<close> of a range, as
  a set of frame numbers.
\<close>

definition gfn_range :: "u64 \<Rightarrow> u64 \<Rightarrow> nat set" where
  "gfn_range base n = {unat base ..< unat base + unat n}"

text \<open>
  Modelled from the spec: the test whether two such ranges intersect, computed on their
  bounds.
\<close>

definition ranges_intersect :: "u64 \<Rightarrow> u64 \<Rightarrow> u64 \<Rightarrow> u64 \<Rightarrow> bool" where
  "ranges_intersect b1 n1 b2 n2 \<longleftrightarrow>
    max (unat b1) (unat b2) < min (unat b1 + unat n1) (unat b2 + unat n2)"

text \<open>
  Modelled from the spec: whether a range "intersects any existing slot in the same
  address space".
\<close>

definition overlaps_existing :: "vmrun_memslots \<Rightarrow> u64 \<Rightarrow> u64 \<Rightarrow> bool" where
  "overlaps_existing ms base n \<longleftrightarrow>
    list_ex (\<lambda>s. ranges_intersect base n (base_gfn s) (npages s)) (memslots ms)"

text \<open>
  Modelled from the spec: the flag bit that requests dirty-page logging is named by the
  spec ("log-dirty-pages") but not defined in the header; it is bit 0 here.
\<close>

definition MEM_LOG_DIRTY_PAGES :: u32 where
  "MEM_LOG_DIRTY_PAGES = 1"

text \<open>Modelled from the spec: whether flags request dirty-page logging.\<close>

definition log_requested :: "u32 \<Rightarrow> bool" where
  "log_requested fl \<longleftrightarrow> fl AND MEM_LOG_DIRTY_PAGES \<noteq> 0"

text \<open>
  Modelled from the spec: "a zeroed dirty bitmap sized to \<open>npages\<close> (if logging requested)",
  one bit per page.
\<close>

definition zeroed_bitmap :: "u32 \<Rightarrow> u64 \<Rightarrow> bool list option" where
  "zeroed_bitmap fl n = (if log_requested fl then Some (replicate (unat n) False) else None)"

text \<open>
  Modelled from the spec: \<open>set_memory_region\<close> "classifies the request as Create / Delete /
  Move / Flags-only by comparing against the slot currently at \<open>slot_id\<close>". A request for
  no pages asks to delete the slot ("Delete: fails with \<open>SlotNotFound\<close> if absent"). A
  request for pages at a free id is a Create. At an occupied id it is a Move when it has
  the "same size and flags" and a "new \<open>base_gfn\<close>/\<open>userspace_addr\<close>", a Flags-only change
  when "size and address [are] unchanged, only \<open>flags\<close> differ", and otherwise it asks for
  a new slot where one exists ("Create: fails with \<open>SlotInUse\<close> if the id is occupied"). An
  id outside the id space, which has no entry in \<open>id_to_index\<close>, is an \<open>InvalidId\<close>.
\<close>

definition classify ::
  "vmrun_memslots \<Rightarrow> int \<Rightarrow> u64 \<Rightarrow> u64 \<Rightarrow> u64 \<Rightarrow> u32 \<Rightarrow> error + vmrun_mr_change" where
  "classify ms sid base n uaddr fl =
    (if sid < 0 \<or> VMRUN_MEM_SLOTS_NUM \<le> sid then Inl InvalidId
     else case id_to_memslot ms sid of
       None \<Rightarrow> if n = 0 then Inl SlotNotFound else Inr VMRUN_MR_CREATE
     | Some old \<Rightarrow>
         if n = 0 then Inr VMRUN_MR_DELETE
         else if n = npages old \<and> fl = flags old \<and>
                 (base \<noteq> base_gfn old \<or> uaddr \<noteq> userspace_addr old)
           then Inr VMRUN_MR_MOVE
         else if n = npages old \<and> base = base_gfn old \<and> uaddr = userspace_addr old \<and>
                 fl \<noteq> flags old
           then Inr VMRUN_MR_FLAGS_ONLY
         else Inl SlotInUse)"

text \<open>
  Modelled from the spec: Create "builds a new snapshot with the slot inserted and
  generation incremented", with "a zeroed dirty bitmap sized to \<open>npages\<close> (if logging
  requested)". The slot is put behind the slots in use, the generation is a \<open>u64\<close>, and
  the slot hint of the new snapshot is reset.
\<close>

definition create_slot ::
  "vmrun_memslots \<Rightarrow> int \<Rightarrow> u64 \<Rightarrow> u64 \<Rightarrow> u64 \<Rightarrow> u32 \<Rightarrow> vmrun_memslots" where
  "create_slot ms sid base n uaddr fl =
    \<lparr>generation = generation ms + 1,
     memslots = memslots ms @
       [\<lparr>base_gfn = base, npages = n, dirty_bitmap = zeroed_bitmap fl n,
         userspace_addr = uaddr, flags = fl, slot_id = sid\<rparr>],
     id_to_index = (id_to_index ms)[nat sid := used_slots ms],
     lru_slot = 0,
     used_slots = used_slots ms + 1\<rparr>"

text \<open>
  Modelled from the spec: Delete gives a "new snapshot without the slot". The gap in the
  array is closed, and the table entries of the slots behind it move down by one.
\<close>

definition delete_slot :: "vmrun_memslots \<Rightarrow> int \<Rightarrow> vmrun_memslots" where
  "delete_slot ms sid =
    (let k = id_to_index ms ! nat sid
     in \<lparr>generation = generation ms + 1,
         memslots = take (nat k) (memslots ms) @ drop (Suc (nat k)) (memslots ms),
         id_to_index =
           map (\<lambda>j. if j = k then -1 else if k < j then j - 1 else j) (id_to_index ms),
         lru_slot = 0,
         used_slots = used_slots ms - 1\<rparr>)"

text \<open>
  Modelled from the spec: Move, "same size and flags, new \<open>base_gfn\<close>/\<open>userspace_addr\<close>;
  [...] dirty bitmap is reset".
\<close>

definition move_slot :: "vmrun_memslots \<Rightarrow> int \<Rightarrow> u64 \<Rightarrow> u64 \<Rightarrow> vmrun_memslots" where
  "move_slot ms sid base uaddr =
    (let k = nat (id_to_index ms ! nat sid); old = memslots ms ! k
     in ms\<lparr>generation := generation ms + 1,
           memslots := (memslots ms)[k := old\<lparr>base_gfn := base, userspace_addr := uaddr,
             dirty_bitmap := map_option (\<lambda>b. replicate (length b) False) (dirty_bitmap old)\<rparr>],
           lru_slot := 0\<rparr>)"

text \<open>
  Modelled from the spec: Flags-only, "size and address unchanged, only \<open>flags\<close> differ;
  dirty bitmap preserved; if dirty-page logging is being newly enabled, a bitmap is
  allocated fresh (zeroed)".
\<close>

definition set_slot_flags :: "vmrun_memslots \<Rightarrow> int \<Rightarrow> u32 \<Rightarrow> vmrun_memslots" where
  "set_slot_flags ms sid fl =
    (let k = nat (id_to_index ms ! nat sid); old = memslots ms ! k
     in ms\<lparr>generation := generation ms + 1,
           memslots := (memslots ms)[k := old\<lparr>flags := fl,
             dirty_bitmap :=
               (if log_requested fl \<and> \<not> log_requested (flags old)
                then zeroed_bitmap fl (npages old) else dirty_bitmap old)\<rparr>],
           lru_slot := 0\<rparr>)"

text \<open>
  Modelled from the spec: \<open>set_memory_region\<close> on the published snapshot of one address
  space, giving the outcome of the request (the kind of change applied, or the error) and
  the snapshot published after it. A Create "fails with \<open>Overlap\<close> if
  \<open>[base_gfn, base_gfn+npages)\<close> intersects any existing slot in the same address space".
  A request that fails publishes nothing ("no partial mutation of a snapshot is ever
  published").
\<close>

definition set_memory_region ::
  "vmrun_memslots \<Rightarrow> int \<Rightarrow> u64 \<Rightarrow> u64 \<Rightarrow> u64 \<Rightarrow> u32 \<Rightarrow>
   (error + vmrun_mr_change) \<times> vmrun_memslots" where
  "set_memory_region ms sid base n uaddr fl =
    (case classify ms sid base n uaddr fl of
       Inl e \<Rightarrow> (Inl e, ms)
     | Inr VMRUN_MR_CREATE \<Rightarrow>
         if overlaps_existing ms base n then (Inl Overlap, ms)
         else (Inr VMRUN_MR_CREATE, create_slot ms sid base n uaddr fl)
     | Inr VMRUN_MR_DELETE \<Rightarrow> (Inr VMRUN_MR_DELETE, delete_slot ms sid)
     | Inr VMRUN_MR_MOVE \<Rightarrow> (Inr VMRUN_MR_MOVE, move_slot ms sid base uaddr)
     | Inr VMRUN_MR_FLAGS_ONLY \<Rightarrow> (Inr VMRUN_MR_FLAGS_ONLY, set_slot_flags ms sid fl))"

text \<open>
  Modelled from the spec: a request, the arguments of \<open>set_memory_region\<close> after the address
  space.
\<close>

record mem_region =
  mr_slot :: int
  mr_base_gfn :: u64
  mr_npages :: u64
  mr_userspace_addr :: u64
  mr_flags :: u32

text \<open>Modelled from the spec: \<open>set_memory_region\<close> applied to a request.\<close>

definition request :: "vmrun_memslots \<Rightarrow> mem_region \<Rightarrow> (error + vmrun_mr_change) \<times> vmrun_memslots" where
  "request ms r =
    set_memory_region ms (mr_slot r) (mr_base_gfn r) (mr_npages r) (mr_userspace_addr r)
      (mr_flags r)"

text \<open>
  Modelled from the spec: the run of a sequence of requests on one address space, as the
  list of the snapshots published one after the other, starting with the initial one. A
  request that fails publishes nothing.
\<close>

fun published :: "vmrun_memslots \<Rightarrow> mem_region list \<Rightarrow> vmrun_memslots list" where
  "published ms [] = [ms]"
| "published ms (r # rs) =
    (case request ms r of
       (Inl e, _) \<Rightarrow> published ms rs
     | (Inr c, ms') \<Rightarrow> ms # published ms' rs)"

subsection \<open>The VM\<close>

text \<open>
  \<open>struct vmrun\<close>: the snapshots of the address spaces (\<open>memslots\<close> in the header, named
  \<open>vm_memslots\<close> here), the VCPU table \<open>vcpus[VMRUN_MAX_VCPUS]\<close> with \<open>None\<close> for a null
  pointer, and the counters. Locks, lists and the notifier state are left out.
\<close>

record vmrun =
  vm_memslots :: "vmrun_memslots list"
  vcpus :: "vmrun_vcpu option list"
  online_vcpus :: int
  created_vcpus :: int
  users_count :: int

text \<open>
  Modelled from the spec: the header declares the VM but not the functions that create it
  and its VCPUs. Section 4.1: \<open>create_vm\<close> "allocates a VM, initializes empty snapshots for
  both address spaces (generation 0), zero VCPUs".
\<close>

definition create_vm :: vmrun where
  "create_vm =
    \<lparr>vm_memslots = replicate (nat VMRUN_ADDRESS_SPACE_NUM) empty_memslots,
     vcpus = replicate (nat VMRUN_MAX_VCPUS) None,
     online_vcpus = 0, created_vcpus = 0, users_count = 1\<rparr>"

text \<open>
  Modelled from the spec: a new VCPU is initialized with "guest mode = outside-guest";
  everything else is zero.
\<close>

definition vcpu_init :: "int \<Rightarrow> vmrun_vcpu" where
  "vcpu_init i =
    \<lparr>vcpu_cpu = 0, vcpu_id = i, mode = OUTSIDE_GUEST_MODE, requests = 0,
     vmcb = \<lparr>save_regs = (\<lambda>r. 0), asid = 0, tlb_flush_all = False\<rparr>,
     vcpu_asid_generation = 0, next_rip = 0, regs = (\<lambda>r. 0), regs_avail = 0,
     regs_dirty = 0, cr0 = 0, cr2 = 0, cr3 = 0, cr4 = 0, cr8 = 0, hflags = 0, efer = 0\<rparr>"

text \<open>Modelled from the spec: whether an id is "already used", by a VCPU in the table.\<close>

definition vcpu_id_used :: "vmrun \<Rightarrow> int \<Rightarrow> bool" where
  "vcpu_id_used vm i \<longleftrightarrow> list_ex (\<lambda>e. case e of None \<Rightarrow> False | Some v \<Rightarrow> vcpu_id v = i) (vcpus vm)"

text \<open>
  Modelled from the spec: \<open>create_vcpu(vm, id)\<close> "fails with \<open>CapacityExceeded\<close> if
  \<open>created_vcpus \<ge> max\<close>, fails with \<open>InvalidId\<close> if id is out of range or already used;
  allocates and initializes a VCPU, publishes it into the VCPU table, and only then
  increments the online counter". The capacity is \<open>VMRUN_MAX_VCPUS\<close>, the size of the table.
  The ids in range are "0..max-1"; the spec does not say which of the header's constants
  this bound is (\<open>VMRUN_MAX_VCPU_ID\<close>, or the size of the table), so the number \<open>max_id\<close>
  of ids is a parameter. As the header's comment in \<open>struct vmrun\<close> has it, \<open>created_vcpus\<close>
  "is incremented at the beginning" of the creation, so a creation that fails afterwards
  takes the increment back, and the pointer is stored in \<open>vcpus\<close> at the index
  \<open>online_vcpus\<close> before that counter is incremented. The result is the outcome (the index
  of the new VCPU in the table, or the error) and the VM after the call.
\<close>

definition create_vcpu :: "int \<Rightarrow> vmrun \<Rightarrow> int \<Rightarrow> (error + nat) \<times> vmrun" where
  "create_vcpu max_id vm i =
    (if VMRUN_MAX_VCPUS \<le> created_vcpus vm then (Inl CapacityExceeded, vm)
     else
       (let vm1 = vm\<lparr>created_vcpus := created_vcpus vm + 1\<rparr>
        in if i < 0 \<or> max_id \<le> i \<or> vcpu_id_used vm1 i
           then (Inl InvalidId, vm1\<lparr>created_vcpus := created_vcpus vm1 - 1\<rparr>)
           else
             (let k = nat (online_vcpus vm1);
                  vm2 = vm1\<lparr>vcpus := (vcpus vm1)[k := Some (vcpu_init i)]\<rparr>
              in (Inr k, vm2\<lparr>online_vcpus := online_vcpus vm2 + 1\<rparr>))))"

section \<open>Properties of the header's constants\<close>

lemma bit_push_bit_one:
  "bit (push_bit m (1::'a::len word)) n \<longleftrightarrow> n = m \<and> m < LENGTH('a)"
  by (auto simp add: bit_push_bit_iff bit_1_iff bit_exp_iff possible_bit_word)

lemma bit_two_power_word:
  "bit ((2::'a::len word) ^ m) n \<longleftrightarrow> n = m \<and> m < LENGTH('a)"
  by (auto simp add: bit_exp_iff possible_bit_word)

lemma two_power_word_inj:
  assumes "m < LENGTH('a)" and "(2::'a::len word) ^ m = 2 ^ n"
  shows "m = n"
proof -
  from assms(1) have "bit ((2::'a word) ^ m) m"
    by (simp add: bit_two_power_word)
  with assms(2) have "bit ((2::'a word) ^ n) m"
    by simp
  then show ?thesis
    by (simp add: bit_two_power_word)
qed

lemmas slot_defs =
  VMRUN_USER_MEM_SLOTS_def VMRUN_PRIVATE_MEM_SLOTS_def VMRUN_MEM_SLOTS_NUM_def
  VMRUN_TSS_PRIVATE_MEMSLOT_def VMRUN_APIC_ACCESS_PAGE_PRIVATE_MEMSLOT_def
  VMRUN_IDENTITY_PAGETABLE_PRIVATE_MEMSLOT_def

lemmas vmcb_defs =
  VMCB_INTERCEPTS_def VMCB_PERM_MAP_def VMCB_ASID_def VMCB_INTR_def VMCB_NPT_def
  VMCB_CR_def VMCB_DR_def VMCB_DT_def VMCB_SEG_def VMCB_CR2_def VMCB_LBR_def
  VMCB_AVIC_def VMCB_DIRTY_MAX_def

lemmas reg_defs =
  VCPU_REGS_RAX_def VCPU_REGS_RCX_def VCPU_REGS_RDX_def VCPU_REGS_RBX_def
  VCPU_REGS_RSP_def VCPU_REGS_RBP_def VCPU_REGS_RSI_def VCPU_REGS_RDI_def
  VCPU_REGS_R8_def VCPU_REGS_R9_def VCPU_REGS_R10_def VCPU_REGS_R11_def
  VCPU_REGS_R12_def VCPU_REGS_R13_def VCPU_REGS_R14_def VCPU_REGS_R15_def
  VCPU_REGS_RIP_def NR_VCPU_REGS_def VCPU_EXREG_PDPTR_def VCPU_EXREG_CR3_def
  VCPU_EXREG_RFLAGS_def VCPU_EXREG_SEGMENTS_def

lemmas pferr_defs =
  PFERR_PRESENT_MASK_def PFERR_WRITE_MASK_def PFERR_USER_MASK_def PFERR_RSVD_MASK_def
  PFERR_FETCH_MASK_def PFERR_PK_MASK_def PFERR_GUEST_FINAL_MASK_def
  PFERR_GUEST_PAGE_MASK_def PFERR_PRESENT_BIT_def PFERR_WRITE_BIT_def PFERR_USER_BIT_def
  PFERR_RSVD_BIT_def PFERR_FETCH_BIT_def PFERR_PK_BIT_def PFERR_GUEST_FINAL_BIT_def
  PFERR_GUEST_PAGE_BIT_def

text \<open>
  C5. The slot-id space of an address space has
  \<open>VMRUN_USER_MEM_SLOTS + VMRUN_PRIVATE_MEM_SLOTS = 512\<close> ids. It splits into the
  user-visible ids and the private ids; the private ids are exactly 509, 510 and 511,
  which are the task-state-segment slot, the local-APIC access page slot and the identity
  page table slot in this order; and every private id is strictly greater than every
  user-visible id, so the three private ids are the top of the id space.
\<close>

theorem private_slots_top_three:
  "VMRUN_MEM_SLOTS_NUM = 512 \<and> card slot_ids = 512 \<and>
   slot_ids = user_slot_ids \<union> private_slot_ids \<and>
   user_slot_ids \<inter> private_slot_ids = {} \<and>
   card private_slot_ids = 3 \<and>
   private_slot_ids = {509, 510, 511} \<and>
   VMRUN_TSS_PRIVATE_MEMSLOT = 509 \<and>
   VMRUN_APIC_ACCESS_PAGE_PRIVATE_MEMSLOT = 510 \<and>
   VMRUN_IDENTITY_PAGETABLE_PRIVATE_MEMSLOT = 511 \<and>
   (\<forall>p \<in> private_slot_ids. \<forall>u \<in> user_slot_ids. u < p)"
  by (auto simp: slot_defs slot_ids_def user_slot_ids_def private_slot_ids_def)

theorem private_slots_top_three_witness:
  "508 \<in> user_slot_ids \<and> VMRUN_TSS_PRIVATE_MEMSLOT \<in> private_slot_ids \<and>
   508 < VMRUN_TSS_PRIVATE_MEMSLOT"
proof -
  have u: "508 \<in> user_slot_ids"
    by (simp add: user_slot_ids_def slot_defs)
  have p: "VMRUN_TSS_PRIVATE_MEMSLOT \<in> private_slot_ids"
    by (simp add: private_slot_ids_def slot_defs)
  from private_slots_top_three
  have "\<forall>p \<in> private_slot_ids. \<forall>u \<in> user_slot_ids. u < p"
    by blast
  with u p show ?thesis
    by blast
qed

text \<open>
  C6. In the pending-request encoding the action-number field \<open>VMRUN_REQUEST_MASK\<close> is
  exactly the bits 7 to 0, the no-wakeup modifier is exactly bit 8 and the wait modifier
  is exactly bit 9, so the three are pairwise disjoint. The TLB-flush request has action
  number 0 and carries both modifier bits, and nothing else.
\<close>

theorem request_bits_layout:
  "(\<forall>n. bit VMRUN_REQUEST_MASK n \<longleftrightarrow> n < 8) \<and>
   (\<forall>n. bit VMRUN_REQUEST_NO_WAKEUP n \<longleftrightarrow> n = 8) \<and>
   (\<forall>n. bit VMRUN_REQUEST_WAIT n \<longleftrightarrow> n = 9) \<and>
   VMRUN_REQUEST_MASK AND VMRUN_REQUEST_NO_WAKEUP = 0 \<and>
   VMRUN_REQUEST_MASK AND VMRUN_REQUEST_WAIT = 0 \<and>
   VMRUN_REQUEST_NO_WAKEUP AND VMRUN_REQUEST_WAIT = 0 \<and>
   VMRUN_REQ_TLB_FLUSH AND VMRUN_REQUEST_MASK = 0 \<and>
   VMRUN_REQ_TLB_FLUSH AND VMRUN_REQUEST_NO_WAKEUP = VMRUN_REQUEST_NO_WAKEUP \<and>
   VMRUN_REQ_TLB_FLUSH AND VMRUN_REQUEST_WAIT = VMRUN_REQUEST_WAIT \<and>
   VMRUN_REQ_TLB_FLUSH = VMRUN_REQUEST_NO_WAKEUP OR VMRUN_REQUEST_WAIT"
proof -
  have field: "VMRUN_REQUEST_MASK = mask 8"
    by (simp add: VMRUN_REQUEST_MASK_def GENMASK_def mask_eq_exp_minus_1)
  have "\<forall>n. bit VMRUN_REQUEST_MASK n \<longleftrightarrow> n < 8"
    by (auto simp add: field bit_mask_iff)
  moreover have "\<forall>n. bit VMRUN_REQUEST_NO_WAKEUP n \<longleftrightarrow> n = 8"
    unfolding VMRUN_REQUEST_NO_WAKEUP_def BIT_def bit_push_bit_one by simp
  moreover have "\<forall>n. bit VMRUN_REQUEST_WAIT n \<longleftrightarrow> n = 9"
    unfolding VMRUN_REQUEST_WAIT_def BIT_def bit_push_bit_one by simp
  moreover have
    "VMRUN_REQUEST_MASK AND VMRUN_REQUEST_NO_WAKEUP = 0 \<and>
     VMRUN_REQUEST_MASK AND VMRUN_REQUEST_WAIT = 0 \<and>
     VMRUN_REQUEST_NO_WAKEUP AND VMRUN_REQUEST_WAIT = 0 \<and>
     VMRUN_REQ_TLB_FLUSH AND VMRUN_REQUEST_MASK = 0 \<and>
     VMRUN_REQ_TLB_FLUSH AND VMRUN_REQUEST_NO_WAKEUP = VMRUN_REQUEST_NO_WAKEUP \<and>
     VMRUN_REQ_TLB_FLUSH AND VMRUN_REQUEST_WAIT = VMRUN_REQUEST_WAIT \<and>
     VMRUN_REQ_TLB_FLUSH = VMRUN_REQUEST_NO_WAKEUP OR VMRUN_REQUEST_WAIT"
    by (simp add: VMRUN_REQ_TLB_FLUSH_def VMRUN_REQUEST_WAIT_def
        VMRUN_REQUEST_NO_WAKEUP_def VMRUN_REQUEST_MASK_def GENMASK_def BIT_def
        mask_eq_exp_minus_1)
  ultimately show ?thesis
    by blast
qed

text \<open>
  C7. The always-dirty mask has exactly two bits set, the one of the interrupt-control
  section \<open>VMCB_INTR\<close> (bit 3) and the one of the CR2 section \<open>VMCB_CR2\<close> (bit 9), both
  sections of the enumeration. Hence, whatever the dirty-section bitmask \<open>d\<close> of an entry
  is, the sections of \<open>d\<close> taken together with the always-dirty mask are those of \<open>d\<close> and
  these two.
\<close>

theorem always_dirty_mask_two_sections:
  "(\<forall>n. bit VMCB_ALWAYS_DIRTY_MASK n \<longleftrightarrow> n = VMCB_INTR \<or> n = VMCB_CR2) \<and>
   (\<forall>d n. bit (d OR VMCB_ALWAYS_DIRTY_MASK) n \<longleftrightarrow>
      bit d n \<or> n = VMCB_INTR \<or> n = VMCB_CR2) \<and>
   VMCB_INTR = 3 \<and> VMCB_CR2 = 9 \<and> VMCB_INTR \<noteq> VMCB_CR2 \<and>
   VMCB_INTR < VMCB_DIRTY_MAX \<and> VMCB_CR2 < VMCB_DIRTY_MAX \<and>
   VMCB_ALWAYS_DIRTY_MASK = 0x208"
proof -
  have "\<forall>n. bit VMCB_ALWAYS_DIRTY_MASK n \<longleftrightarrow> n = VMCB_INTR \<or> n = VMCB_CR2"
    unfolding VMCB_ALWAYS_DIRTY_MASK_def bit_or_iff bit_push_bit_one
    by (simp add: vmcb_defs)
  moreover have "\<forall>d n. bit (d OR VMCB_ALWAYS_DIRTY_MASK) n \<longleftrightarrow>
      bit d n \<or> n = VMCB_INTR \<or> n = VMCB_CR2"
    unfolding VMCB_ALWAYS_DIRTY_MASK_def bit_or_iff bit_push_bit_one
    by (simp add: vmcb_defs)
  moreover have "VMCB_INTR = 3 \<and> VMCB_CR2 = 9 \<and> VMCB_INTR \<noteq> VMCB_CR2 \<and>
      VMCB_INTR < VMCB_DIRTY_MAX \<and> VMCB_CR2 < VMCB_DIRTY_MAX \<and>
      VMCB_ALWAYS_DIRTY_MASK = 0x208"
    by (simp add: VMCB_ALWAYS_DIRTY_MASK_def vmcb_defs)
  ultimately show ?thesis
    by blast
qed

text \<open>
  C8, as the spec states it: all eight indicators, the two nested-fault ones among them,
  are distinct nonzero values of the error-bits parameter of the page-fault hook. This
  fails: the parameter is a \<open>u32\<close>, and the two nested-fault masks, which are bits 32 and
  33, both become zero when they are passed in it.
\<close>

theorem nested_fault_bits_lost_in_err:
  "\<not> (page_fault_err PFERR_GUEST_FINAL_MASK \<noteq> 0 \<and>
      page_fault_err PFERR_GUEST_PAGE_MASK \<noteq> 0 \<and>
      page_fault_err PFERR_GUEST_FINAL_MASK \<noteq> page_fault_err PFERR_GUEST_PAGE_MASK)"
  by (simp add: page_fault_err_def pferr_defs)

text \<open>
  C8, amended. The error-bits parameter of the page-fault hook is 32 bits wide. The six
  indicators present, write, user, reserved, fetch and protection-key are the single bits
  0 to 5 of it, distinct and nonzero, and each of them survives being widened to 64 bits
  and passed in the parameter. The two nested-fault indicators are the single bits 32 and
  33 of a 64-bit error code: as 64-bit values they are nonzero, distinct from each other
  and from the six others, but they do not fit the parameter, where both are zero.
\<close>

theorem pferr_masks_encoding:
  "(\<forall>n. bit PFERR_PRESENT_MASK n \<longleftrightarrow> n = 0) \<and>
   (\<forall>n. bit PFERR_WRITE_MASK n \<longleftrightarrow> n = 1) \<and>
   (\<forall>n. bit PFERR_USER_MASK n \<longleftrightarrow> n = 2) \<and>
   (\<forall>n. bit PFERR_RSVD_MASK n \<longleftrightarrow> n = 3) \<and>
   (\<forall>n. bit PFERR_FETCH_MASK n \<longleftrightarrow> n = 4) \<and>
   (\<forall>n. bit PFERR_PK_MASK n \<longleftrightarrow> n = 5) \<and>
   (\<forall>n. bit PFERR_GUEST_FINAL_MASK n \<longleftrightarrow> n = 32) \<and>
   (\<forall>n. bit PFERR_GUEST_PAGE_MASK n \<longleftrightarrow> n = 33) \<and>
   distinct [PFERR_PRESENT_MASK, PFERR_WRITE_MASK, PFERR_USER_MASK, PFERR_RSVD_MASK,
     PFERR_FETCH_MASK, PFERR_PK_MASK] \<and>
   0 \<notin> set [PFERR_PRESENT_MASK, PFERR_WRITE_MASK, PFERR_USER_MASK, PFERR_RSVD_MASK,
     PFERR_FETCH_MASK, PFERR_PK_MASK] \<and>
   map (\<lambda>m. page_fault_err (ucast m)) [PFERR_PRESENT_MASK, PFERR_WRITE_MASK,
     PFERR_USER_MASK, PFERR_RSVD_MASK, PFERR_FETCH_MASK, PFERR_PK_MASK] =
     [PFERR_PRESENT_MASK, PFERR_WRITE_MASK, PFERR_USER_MASK, PFERR_RSVD_MASK,
      PFERR_FETCH_MASK, PFERR_PK_MASK] \<and>
   distinct [ucast PFERR_PRESENT_MASK, ucast PFERR_WRITE_MASK, ucast PFERR_USER_MASK,
     ucast PFERR_RSVD_MASK, ucast PFERR_FETCH_MASK, ucast PFERR_PK_MASK,
     PFERR_GUEST_FINAL_MASK, PFERR_GUEST_PAGE_MASK] \<and>
   PFERR_GUEST_FINAL_MASK \<noteq> 0 \<and> PFERR_GUEST_PAGE_MASK \<noteq> 0 \<and>
   page_fault_err PFERR_GUEST_FINAL_MASK = 0 \<and>
   page_fault_err PFERR_GUEST_PAGE_MASK = 0"
proof -
  have low:
    "(\<forall>n. bit PFERR_PRESENT_MASK n \<longleftrightarrow> n = 0) \<and>
     (\<forall>n. bit PFERR_WRITE_MASK n \<longleftrightarrow> n = 1) \<and>
     (\<forall>n. bit PFERR_USER_MASK n \<longleftrightarrow> n = 2) \<and>
     (\<forall>n. bit PFERR_RSVD_MASK n \<longleftrightarrow> n = 3) \<and>
     (\<forall>n. bit PFERR_FETCH_MASK n \<longleftrightarrow> n = 4) \<and>
     (\<forall>n. bit PFERR_PK_MASK n \<longleftrightarrow> n = 5)"
    unfolding PFERR_PRESENT_MASK_def PFERR_WRITE_MASK_def PFERR_USER_MASK_def
      PFERR_RSVD_MASK_def PFERR_FETCH_MASK_def PFERR_PK_MASK_def bit_push_bit_one
    by (simp add: pferr_defs)
  have high:
    "(\<forall>n. bit PFERR_GUEST_FINAL_MASK n \<longleftrightarrow> n = 32) \<and>
     (\<forall>n. bit PFERR_GUEST_PAGE_MASK n \<longleftrightarrow> n = 33)"
    unfolding PFERR_GUEST_FINAL_MASK_def PFERR_GUEST_PAGE_MASK_def bit_push_bit_one
    by (simp add: pferr_defs)
  have vals:
    "distinct [PFERR_PRESENT_MASK, PFERR_WRITE_MASK, PFERR_USER_MASK, PFERR_RSVD_MASK,
       PFERR_FETCH_MASK, PFERR_PK_MASK] \<and>
     0 \<notin> set [PFERR_PRESENT_MASK, PFERR_WRITE_MASK, PFERR_USER_MASK, PFERR_RSVD_MASK,
       PFERR_FETCH_MASK, PFERR_PK_MASK] \<and>
     map (\<lambda>m. page_fault_err (ucast m)) [PFERR_PRESENT_MASK, PFERR_WRITE_MASK,
       PFERR_USER_MASK, PFERR_RSVD_MASK, PFERR_FETCH_MASK, PFERR_PK_MASK] =
       [PFERR_PRESENT_MASK, PFERR_WRITE_MASK, PFERR_USER_MASK, PFERR_RSVD_MASK,
        PFERR_FETCH_MASK, PFERR_PK_MASK] \<and>
     distinct [ucast PFERR_PRESENT_MASK, ucast PFERR_WRITE_MASK, ucast PFERR_USER_MASK,
       ucast PFERR_RSVD_MASK, ucast PFERR_FETCH_MASK, ucast PFERR_PK_MASK,
       PFERR_GUEST_FINAL_MASK, PFERR_GUEST_PAGE_MASK] \<and>
     PFERR_GUEST_FINAL_MASK \<noteq> 0 \<and> PFERR_GUEST_PAGE_MASK \<noteq> 0 \<and>
     page_fault_err PFERR_GUEST_FINAL_MASK = 0 \<and>
     page_fault_err PFERR_GUEST_PAGE_MASK = 0"
    by (simp add: page_fault_err_def pferr_defs)
  from low high vals show ?thesis
    by (elim conjE, intro conjI) assumption+
qed

text \<open>
  C10. The registers tracked by the bitmasks \<open>regs_avail\<close> and \<open>regs_dirty\<close> have pairwise
  distinct numbers, all strictly below the 32 bits of the masks: the general registers are
  numbered 0 to 16 (\<open>NR_VCPU_REGS = 17\<close>), the extended registers 17 to 20, and the
  largest number is \<open>VCPU_EXREG_SEGMENTS = 20\<close>. So the bits \<open>1 << r\<close> of the tracked
  registers are distinct nonzero values of a 32-bit mask.
\<close>

theorem reg_indices_fit_mask:
  "distinct (vcpu_regs @ vcpu_exregs) \<and>
   (\<forall>r \<in> set (vcpu_regs @ vcpu_exregs). r < regs_mask_bits) \<and>
   regs_mask_bits = 32 \<and>
   vcpu_regs = [0 ..< NR_VCPU_REGS] \<and> NR_VCPU_REGS = 17 \<and>
   vcpu_exregs = [17, 18, 19, 20] \<and>
   VCPU_EXREG_SEGMENTS = 20 \<and>
   (\<forall>r \<in> set (vcpu_regs @ vcpu_exregs). r \<le> VCPU_EXREG_SEGMENTS) \<and>
   VCPU_EXREG_SEGMENTS < regs_mask_bits \<and>
   distinct (map (\<lambda>r. push_bit r (1::u32)) (vcpu_regs @ vcpu_exregs)) \<and>
   (\<forall>r \<in> set (vcpu_regs @ vcpu_exregs). push_bit r (1::u32) \<noteq> 0)"
proof -
  have regs: "vcpu_regs = [0 ..< 17]"
    unfolding vcpu_regs_def reg_defs by code_simp
  have exregs: "vcpu_exregs = [17, 18, 19, 20]"
    by (simp add: vcpu_exregs_def reg_defs)
  have all: "vcpu_regs @ vcpu_exregs = [0 ..< 21]"
    unfolding regs exregs by code_simp
  have nums: "NR_VCPU_REGS = 17 \<and> VCPU_EXREG_SEGMENTS = 20 \<and> regs_mask_bits = 32"
    by (simp add: reg_defs regs_mask_bits_def)
  have bits_distinct: "distinct (map (\<lambda>r. push_bit r (1::u32)) [0 ..< 21])"
  proof -
    have "inj_on (\<lambda>r. push_bit r (1::u32)) (set [0 ..< 21])"
    proof (rule inj_onI)
      fix x y :: nat
      assume "x \<in> set [0 ..< 21]" and "push_bit x (1::u32) = push_bit y 1"
      then have "x < LENGTH(32)" and "(2::u32) ^ x = 2 ^ y"
        by simp_all
      then show "x = y"
        by (rule two_power_word_inj)
    qed
    then show ?thesis
      by (simp add: distinct_map)
  qed
  have bits_nonzero: "\<forall>r \<in> set [0 ..< 21]. push_bit r (1::u32) \<noteq> 0"
  proof
    fix r :: nat
    assume "r \<in> set [0 ..< 21]"
    then have b: "bit ((2::u32) ^ r) r"
      by (simp add: bit_two_power_word)
    show "push_bit r (1::u32) \<noteq> 0"
    proof
      assume "push_bit r (1::u32) = 0"
      then have "(2::u32) ^ r = 0"
        by simp
      with b have "bit (0::u32) r"
        by simp
      then show False
        by simp
    qed
  qed
  show ?thesis
    using regs exregs nums bits_distinct bits_nonzero unfolding all
    by simp
qed

theorem reg_indices_fit_mask_witness:
  "VCPU_EXREG_SEGMENTS \<in> set (vcpu_regs @ vcpu_exregs) \<and>
   VCPU_EXREG_SEGMENTS < regs_mask_bits \<and>
   push_bit VCPU_EXREG_SEGMENTS (1::u32) \<noteq> 0"
proof -
  have m: "VCPU_EXREG_SEGMENTS \<in> set (vcpu_regs @ vcpu_exregs)"
    by (simp add: vcpu_exregs_def)
  from reg_indices_fit_mask
  have "\<forall>r \<in> set (vcpu_regs @ vcpu_exregs). r < regs_mask_bits"
    and "\<forall>r \<in> set (vcpu_regs @ vcpu_exregs). push_bit r (1::u32) \<noteq> 0"
    by blast+
  with m show ?thesis
    by blast
qed

section \<open>Creating VCPUs\<close>

text \<open>
  C3. \<open>create_vcpu\<close> fails with \<open>CapacityExceeded\<close> when the count of created VCPUs is
  already at least the capacity \<open>VMRUN_MAX_VCPUS = 288\<close>, whatever the id is. Below the
  capacity it fails with \<open>InvalidId\<close> when the id is outside the id range \<open>0\<close> to
  \<open>max_id - 1\<close> (for every bound \<open>max_id\<close>, the header's \<open>VMRUN_MAX_VCPU_ID\<close> and
  \<open>VMRUN_MAX_VCPUS\<close> among them) or is the id of a VCPU of the VM. These are the only
  failures, and after a failure the VM is the VM before the call: the table holds the same
  VCPUs and both counters have their old values. A creation that does not fail counts the
  new VCPU in both counters.
\<close>

theorem create_vcpu_failures:
  "(VMRUN_MAX_VCPUS \<le> created_vcpus vm \<longrightarrow>
      create_vcpu max_id vm i = (Inl CapacityExceeded, vm)) \<and>
   (created_vcpus vm < VMRUN_MAX_VCPUS \<and> (i < 0 \<or> max_id \<le> i \<or> vcpu_id_used vm i) \<longrightarrow>
      create_vcpu max_id vm i = (Inl InvalidId, vm)) \<and>
   (\<forall>e. fst (create_vcpu max_id vm i) = Inl e \<longrightarrow>
      (e = CapacityExceeded \<or> e = InvalidId) \<and>
      snd (create_vcpu max_id vm i) = vm \<and>
      vcpus (snd (create_vcpu max_id vm i)) = vcpus vm \<and>
      created_vcpus (snd (create_vcpu max_id vm i)) = created_vcpus vm \<and>
      online_vcpus (snd (create_vcpu max_id vm i)) = online_vcpus vm) \<and>
   (created_vcpus vm < VMRUN_MAX_VCPUS \<and> 0 \<le> i \<and> i < max_id \<and> \<not> vcpu_id_used vm i \<longrightarrow>
      fst (create_vcpu max_id vm i) = Inr (nat (online_vcpus vm)) \<and>
      created_vcpus (snd (create_vcpu max_id vm i)) = created_vcpus vm + 1 \<and>
      online_vcpus (snd (create_vcpu max_id vm i)) = online_vcpus vm + 1) \<and>
   VMRUN_MAX_VCPUS = 288 \<and> VMRUN_MAX_VCPU_ID = 1023"
proof -
  have full: "create_vcpu max_id vm i = (Inl CapacityExceeded, vm)"
    if "VMRUN_MAX_VCPUS \<le> created_vcpus vm"
    using that by (simp add: create_vcpu_def)
  have bad: "create_vcpu max_id vm i = (Inl InvalidId, vm)"
    if "created_vcpus vm < VMRUN_MAX_VCPUS" and "i < 0 \<or> max_id \<le> i \<or> vcpu_id_used vm i"
    using that by (auto simp add: create_vcpu_def Let_def vcpu_id_used_def)
  have good: "fst (create_vcpu max_id vm i) = Inr (nat (online_vcpus vm)) \<and>
      created_vcpus (snd (create_vcpu max_id vm i)) = created_vcpus vm + 1 \<and>
      online_vcpus (snd (create_vcpu max_id vm i)) = online_vcpus vm + 1"
    if "created_vcpus vm < VMRUN_MAX_VCPUS" and "0 \<le> i" and "i < max_id"
      and "\<not> vcpu_id_used vm i"
    using that by (simp add: create_vcpu_def Let_def vcpu_id_used_def)
  have fail: "(e = CapacityExceeded \<or> e = InvalidId) \<and>
      snd (create_vcpu max_id vm i) = vm \<and>
      vcpus (snd (create_vcpu max_id vm i)) = vcpus vm \<and>
      created_vcpus (snd (create_vcpu max_id vm i)) = created_vcpus vm \<and>
      online_vcpus (snd (create_vcpu max_id vm i)) = online_vcpus vm"
    if "fst (create_vcpu max_id vm i) = Inl e" for e
  proof (cases "VMRUN_MAX_VCPUS \<le> created_vcpus vm")
    case True
    from full [OF True] that show ?thesis
      by simp
  next
    case False
    then have room: "created_vcpus vm < VMRUN_MAX_VCPUS"
      by simp
    show ?thesis
    proof (cases "i < 0 \<or> max_id \<le> i \<or> vcpu_id_used vm i")
      case True
      from bad [OF room True] that show ?thesis
        by simp
    next
      case False
      with good [OF room] that show ?thesis
        by simp
    qed
  qed
  have nums: "VMRUN_MAX_VCPUS = 288 \<and> VMRUN_MAX_VCPU_ID = 1023"
    by (simp add: VMRUN_MAX_VCPUS_def VMRUN_MAX_VCPU_ID_def)
  from full bad fail good nums show ?thesis
    by blast
qed

theorem create_vcpu_failures_witness:
  "VMRUN_MAX_VCPUS \<le> created_vcpus (create_vm\<lparr>created_vcpus := 288\<rparr>) \<and>
   create_vcpu VMRUN_MAX_VCPU_ID (create_vm\<lparr>created_vcpus := 288\<rparr>) 0 =
     (Inl CapacityExceeded, create_vm\<lparr>created_vcpus := 288\<rparr>) \<and>
   created_vcpus create_vm < VMRUN_MAX_VCPUS \<and>
   create_vcpu VMRUN_MAX_VCPU_ID create_vm 1023 = (Inl InvalidId, create_vm) \<and>
   create_vcpu VMRUN_MAX_VCPUS create_vm 288 = (Inl InvalidId, create_vm) \<and>
   create_vcpu VMRUN_MAX_VCPU_ID create_vm (- 1) = (Inl InvalidId, create_vm) \<and>
   fst (create_vcpu VMRUN_MAX_VCPU_ID create_vm 5) = Inr 0 \<and>
   vcpu_id_used (snd (create_vcpu VMRUN_MAX_VCPU_ID create_vm 5)) 5 \<and>
   create_vcpu VMRUN_MAX_VCPU_ID (snd (create_vcpu VMRUN_MAX_VCPU_ID create_vm 5)) 5 =
     (Inl InvalidId, snd (create_vcpu VMRUN_MAX_VCPU_ID create_vm 5))"
proof -
  let ?m = VMRUN_MAX_VCPU_ID
  have full: "VMRUN_MAX_VCPUS \<le> created_vcpus (create_vm\<lparr>created_vcpus := 288\<rparr>)"
    by (simp add: VMRUN_MAX_VCPUS_def)
  have room: "created_vcpus create_vm < VMRUN_MAX_VCPUS"
    by (simp add: create_vm_def VMRUN_MAX_VCPUS_def)
  have big: "?m \<le> 1023" "VMRUN_MAX_VCPUS \<le> 288"
    by (simp_all add: VMRUN_MAX_VCPU_ID_def VMRUN_MAX_VCPUS_def)
  have first: "create_vcpu ?m create_vm 5 =
      (Inr 0, create_vm\<lparr>created_vcpus := 1,
        vcpus := (vcpus create_vm)[0 := Some (vcpu_init 5)], online_vcpus := 1\<rparr>)"
    by (simp add: create_vcpu_def Let_def create_vm_def vcpu_id_used_def list_ex_iff
        VMRUN_MAX_VCPUS_def VMRUN_MAX_VCPU_ID_def)
  have "Some (vcpu_init 5) \<in> set ((vcpus create_vm)[0 := Some (vcpu_init 5)])"
    by (rule set_update_memI) (simp add: create_vm_def VMRUN_MAX_VCPUS_def)
  then have used: "vcpu_id_used (snd (create_vcpu ?m create_vm 5)) 5"
    unfolding first vcpu_id_used_def list_ex_iff
    by (intro bexI [of _ "Some (vcpu_init 5)"]) (simp_all add: vcpu_init_def)
  have room': "created_vcpus (snd (create_vcpu ?m create_vm 5)) < VMRUN_MAX_VCPUS"
    unfolding first by (simp add: VMRUN_MAX_VCPUS_def)
  from create_vcpu_failures [of "create_vm\<lparr>created_vcpus := 288\<rparr>" ?m 0] full
  have a: "create_vcpu ?m (create_vm\<lparr>created_vcpus := 288\<rparr>) 0 =
     (Inl CapacityExceeded, create_vm\<lparr>created_vcpus := 288\<rparr>)"
    by blast
  from create_vcpu_failures [of create_vm ?m 1023] room big
  have b: "create_vcpu ?m create_vm 1023 = (Inl InvalidId, create_vm)"
    by blast
  from create_vcpu_failures [of create_vm VMRUN_MAX_VCPUS 288] room big
  have b': "create_vcpu VMRUN_MAX_VCPUS create_vm 288 = (Inl InvalidId, create_vm)"
    by blast
  from create_vcpu_failures [of create_vm ?m "- 1"] room
  have c: "create_vcpu ?m create_vm (- 1) = (Inl InvalidId, create_vm)"
    by simp
  from create_vcpu_failures [of "snd (create_vcpu ?m create_vm 5)" ?m 5] room' used
  have d: "create_vcpu ?m (snd (create_vcpu ?m create_vm 5)) 5 =
     (Inl InvalidId, snd (create_vcpu ?m create_vm 5))"
    by blast
  have e: "fst (create_vcpu ?m create_vm 5) = Inr 0"
    by (simp add: first)
  from full room used a b b' c d e show ?thesis
    by (intro conjI)
qed

section \<open>ASID wrap-around\<close>

lemma new_asid_wrap:
  "max_asid sd < next_asid sd \<Longrightarrow>
   new_asid sd = (FIRST_ASID, sd\<lparr>asid_generation := asid_generation sd + 1, next_asid := FIRST_ASID + 1\<rparr>)"
  by (simp add: new_asid_def)

lemma new_asid_no_wrap:
  "next_asid sd \<le> max_asid sd \<Longrightarrow>
   new_asid sd = (next_asid sd, sd\<lparr>next_asid := next_asid sd + 1\<rparr>)"
  by (simp add: new_asid_def not_less[symmetric])

lemma assign_asids_add:
  "assign_asids (a + b) sd = assign_asids b (assign_asids a sd)"
  by (induction a arbitrary: sd) simp_all

lemma assign_asids_no_wrap:
  "unat (next_asid sd) + j \<le> unat (max_asid sd) + 1 \<Longrightarrow> max_asid sd < 0xFFFFFFFF \<Longrightarrow>
   assign_asids j sd = sd\<lparr>next_asid := next_asid sd + of_nat j\<rparr>"
proof (induction j arbitrary: sd)
  case 0
  then show ?case by simp
next
  case (Suc j)
  from Suc.prems have le: "next_asid sd \<le> max_asid sd"
    by (simp add: word_le_nat_alt)
  from Suc.prems have "unat (next_asid sd) + unat (1::u32) < 2 ^ LENGTH(32)"
    by (simp add: word_less_nat_alt)
  then have u: "unat (next_asid sd + 1) = unat (next_asid sd) + 1"
    by (simp only: unat_add_lem [THEN iffD1] unat_1)
  let ?sd = "sd\<lparr>next_asid := next_asid sd + 1\<rparr>"
  have "assign_asids j ?sd = ?sd\<lparr>next_asid := next_asid ?sd + of_nat j\<rparr>"
    using Suc.prems u by (intro Suc.IH) simp_all
  then show ?case
    using le by (simp add: new_asid_no_wrap add.assoc)
qed

lemma assign_asids_through_wrap:
  assumes first: "FIRST_ASID \<le> next_asid sd"
    and le: "next_asid sd \<le> max_asid sd"
    and max: "max_asid sd < 0xFFFFFFFF"
    and j: "unat (max_asid sd) + 1 - unat (next_asid sd) < j" "j \<le> unat (max_asid sd) + 1"
  shows "assign_asids j sd =
    sd\<lparr>asid_generation := asid_generation sd + 1,
       next_asid := FIRST_ASID + of_nat (j - (unat (max_asid sd) + 1 - unat (next_asid sd)))\<rparr>"
proof -
  define N where "N = unat (max_asid sd)"
  define k where "k = unat (next_asid sd)"
  define a where "a = N + 1 - k"
  define b where "b = j - a - 1"
  from first have k1: "1 \<le> k"
    by (simp add: FIRST_ASID_def word_le_nat_alt k_def)
  from le have kN: "k \<le> N"
    by (simp add: word_le_nat_alt k_def N_def)
  from max have N: "N < 4294967295"
    by (simp add: word_less_nat_alt N_def)
  from j have jb: "j = a + (1 + b)" and b: "b + 1 \<le> k"
    using k1 kN by (simp_all add: a_def b_def N_def k_def)
  let ?s1 = "sd\<lparr>next_asid := next_asid sd + of_nat a\<rparr>"
  have s1: "assign_asids a sd = ?s1"
    using kN max by (intro assign_asids_no_wrap) (simp_all add: a_def N_def k_def)
  have "unat (next_asid sd + of_nat a) = (k + a) mod 2 ^ 32"
    by (simp add: unat_word_ariths k_def unat_of_nat mod_simps)
  also have "\<dots> = N + 1"
    using kN N by (simp add: a_def)
  finally have over: "max_asid ?s1 < next_asid ?s1"
    by (simp add: word_less_nat_alt N_def)
  let ?s2 = "sd\<lparr>asid_generation := asid_generation sd + 1, next_asid := FIRST_ASID + 1\<rparr>"
  have s2: "assign_asids 1 ?s1 = ?s2"
    using new_asid_wrap [OF over] by simp
  have "unat (next_asid ?s2) + b \<le> unat (max_asid ?s2) + 1"
    using b kN by (simp add: FIRST_ASID_def N_def)
  then have s3: "assign_asids b ?s2 = ?s2\<lparr>next_asid := next_asid ?s2 + of_nat b\<rparr>"
    using max by (intro assign_asids_no_wrap) simp_all
  have "assign_asids j sd = assign_asids b (assign_asids 1 (assign_asids a sd))"
    unfolding jb by (simp only: assign_asids_add)
  also have "\<dots> = ?s2\<lparr>next_asid := next_asid ?s2 + of_nat b\<rparr>"
    by (simp only: s1 s2 s3)
  also have "\<dots> = sd\<lparr>asid_generation := asid_generation sd + 1,
      next_asid := FIRST_ASID + of_nat (j - a)\<rparr>"
    using jb by (simp add: add.assoc)
  finally show ?thesis
    by (simp add: a_def N_def k_def)
qed

lemma assign_asids_never_wraps:
  "max_asid sd = - 1 \<Longrightarrow> asid_generation (assign_asids n sd) = asid_generation sd"
proof (induction n arbitrary: sd)
  case 0
  then show ?case by simp
next
  case (Suc n)
  let ?sd = "sd\<lparr>next_asid := next_asid sd + 1\<rparr>"
  from Suc.prems have "next_asid sd \<le> max_asid sd"
    by simp
  then have "snd (new_asid sd) = ?sd"
    by (simp add: new_asid_no_wrap)
  moreover from Suc.prems have "asid_generation (assign_asids n ?sd) = asid_generation ?sd"
    by (intro Suc.IH) simp
  ultimately show ?case
    by simp
qed

text \<open>
  C4, as the spec states it: for every ASID state of a physical CPU with \<open>max_asid = N\<close>,
  after \<open>N + 1\<close> tag assignments the generation has incremented exactly once. This fails
  for a state whose tags are used up: with \<open>max_asid = 1\<close> and \<open>next_asid = 2\<close> (the state
  of a CPU with \<open>max_asid = 1\<close> after it handed out its one tag) each of the next
  \<open>N + 1 = 2\<close> assignments finds \<open>next_asid\<close> above \<open>max_asid\<close>, and the generation is
  incremented twice. It also fails below and at the top of the range of tags: from
  \<open>next_asid = 0\<close> the \<open>N + 1\<close> tags 0 to \<open>N\<close> are handed out with no increment, and with
  \<open>max_asid = 2^32 - 1\<close> the \<open>u32\<close> counter \<open>next_asid\<close> can never be above \<open>max_asid\<close>, so
  the generation never changes.
\<close>

theorem asid_two_wraps_from_exhausted:
  "asid_generation (assign_asids
      (unat (max_asid \<lparr>cpu = 0, asid_generation = 0, max_asid = 1, next_asid = 2\<rparr>) + 1)
      \<lparr>cpu = 0, asid_generation = 0, max_asid = 1, next_asid = 2\<rparr>) =
    asid_generation \<lparr>cpu = 0, asid_generation = 0, max_asid = 1, next_asid = 2\<rparr> + 2 \<and>
   asid_generation (assign_asids
      (unat (max_asid \<lparr>cpu = 0, asid_generation = 0, max_asid = 1, next_asid = 2\<rparr>) + 1)
      \<lparr>cpu = 0, asid_generation = 0, max_asid = 1, next_asid = 2\<rparr>) \<noteq>
    asid_generation \<lparr>cpu = 0, asid_generation = 0, max_asid = 1, next_asid = 2\<rparr> + 1 \<and>
   assign_asids 1 \<lparr>cpu = 0, asid_generation = 0, max_asid = 1, next_asid = 1\<rparr> =
     \<lparr>cpu = 0, asid_generation = 0, max_asid = 1, next_asid = 2\<rparr> \<and>
   asid_generation (assign_asids
      (unat (max_asid \<lparr>cpu = 0, asid_generation = 0, max_asid = 1, next_asid = 0\<rparr>) + 1)
      \<lparr>cpu = 0, asid_generation = 0, max_asid = 1, next_asid = 0\<rparr>) =
    asid_generation \<lparr>cpu = 0, asid_generation = 0, max_asid = 1, next_asid = 0\<rparr> \<and>
   asid_generation (assign_asids
      (unat (max_asid \<lparr>cpu = 0, asid_generation = 0, max_asid = 0xFFFFFFFF, next_asid = 1\<rparr>) + 1)
      \<lparr>cpu = 0, asid_generation = 0, max_asid = 0xFFFFFFFF, next_asid = 1\<rparr>) =
    asid_generation \<lparr>cpu = 0, asid_generation = 0, max_asid = 0xFFFFFFFF, next_asid = 1\<rparr>"
proof -
  have "asid_generation (assign_asids n
      \<lparr>cpu = 0, asid_generation = 0, max_asid = 0xFFFFFFFF, next_asid = 1\<rparr>) = 0" for n
    using assign_asids_never_wraps
      [of "\<lparr>cpu = 0, asid_generation = 0, max_asid = 0xFFFFFFFF, next_asid = 1\<rparr>" n]
    by simp
  then show ?thesis
    by (simp add: new_asid_def FIRST_ASID_def)
qed

text \<open>
  C4, amended. A tag assignment that finds \<open>next_asid\<close> above \<open>max_asid\<close> increments the
  generation of that CPU by exactly one, hands out the first usable tag and leaves
  \<open>next_asid\<close> behind it; any other assignment hands out \<open>next_asid\<close> and leaves the
  generation alone. For every ASID state with \<open>max_asid = N\<close> below \<open>2^32 - 1\<close> whose next
  tag is usable (\<open>FIRST_ASID \<le> next_asid \<le> max_asid\<close>), the generation is incremented
  exactly once in the course of \<open>N + 1\<close> assignments: it keeps its value for the first
  \<open>N + 1 - next_asid\<close> of them and has the next value from then on, which differs from the
  old one. At a guest entry a VCPU whose cached generation differs from the generation of
  the CPU is given the tag of a new assignment, takes over the generation of the CPU, and
  has a full TLB flush forced; with equal generations its tag stays and no flush is forced.
  In particular a VCPU that holds the generation from before the \<open>N + 1\<close> assignments has a
  full flush forced at its next entry.
\<close>

theorem asid_wraparound_once:
  assumes first: "FIRST_ASID \<le> next_asid sd"
    and le: "next_asid sd \<le> max_asid sd"
    and max: "max_asid sd < 0xFFFFFFFF"
  shows
    "(\<forall>s. max_asid s < next_asid s \<longrightarrow>
        new_asid s = (FIRST_ASID,
          s\<lparr>asid_generation := asid_generation s + 1, next_asid := FIRST_ASID + 1\<rparr>)) \<and>
     (\<forall>s. next_asid s \<le> max_asid s \<longrightarrow>
        new_asid s = (next_asid s, s\<lparr>next_asid := next_asid s + 1\<rparr>)) \<and>
     (\<forall>j \<le> unat (max_asid sd) + 1.
        asid_generation (assign_asids j sd) =
          (if j \<le> unat (max_asid sd) + 1 - unat (next_asid sd) then asid_generation sd
           else asid_generation sd + 1)) \<and>
     asid_generation (assign_asids (unat (max_asid sd) + 1) sd) = asid_generation sd + 1 \<and>
     asid_generation sd + 1 \<noteq> asid_generation sd \<and>
     (\<forall>vcpu s. vcpu_asid_generation vcpu \<noteq> asid_generation s \<longrightarrow>
        pre_run vcpu s =
          (vcpu\<lparr>vmcb := (vmcb vcpu)\<lparr>asid := fst (new_asid s), tlb_flush_all := True\<rparr>,
                vcpu_asid_generation := asid_generation (snd (new_asid s))\<rparr>,
           snd (new_asid s))) \<and>
     (\<forall>vcpu s. vcpu_asid_generation vcpu = asid_generation s \<longrightarrow>
        pre_run vcpu s = (vcpu\<lparr>vmcb := (vmcb vcpu)\<lparr>tlb_flush_all := False\<rparr>\<rparr>, s)) \<and>
     (\<forall>vcpu. vcpu_asid_generation vcpu = asid_generation sd \<longrightarrow>
        tlb_flush_all (vmcb (fst (pre_run vcpu (assign_asids (unat (max_asid sd) + 1) sd)))) \<and>
        vcpu_asid_generation (fst (pre_run vcpu (assign_asids (unat (max_asid sd) + 1) sd))) =
          asid_generation (snd (pre_run vcpu (assign_asids (unat (max_asid sd) + 1) sd))))"
proof -
  let ?n = "unat (max_asid sd) + 1"
  have gens: "asid_generation (assign_asids j sd) =
      (if j \<le> ?n - unat (next_asid sd) then asid_generation sd else asid_generation sd + 1)"
    if "j \<le> ?n" for j
  proof (cases "j \<le> ?n - unat (next_asid sd)")
    case True
    with le have "unat (next_asid sd) + j \<le> unat (max_asid sd) + 1"
      by (simp add: word_le_nat_alt)
    then have "assign_asids j sd = sd\<lparr>next_asid := next_asid sd + of_nat j\<rparr>"
      using max by (rule assign_asids_no_wrap)
    with True show ?thesis
      by simp
  next
    case False
    then have "?n - unat (next_asid sd) < j"
      by simp
    from assign_asids_through_wrap [OF first le max this that] False show ?thesis
      by simp
  qed
  have "0 < unat (next_asid sd)"
    using first by (simp add: FIRST_ASID_def word_le_nat_alt)
  then have last: "asid_generation (assign_asids ?n sd) = asid_generation sd + 1"
    using gens [of ?n] by simp
  have stale: "pre_run vcpu s =
      (vcpu\<lparr>vmcb := (vmcb vcpu)\<lparr>asid := fst (new_asid s), tlb_flush_all := True\<rparr>,
            vcpu_asid_generation := asid_generation (snd (new_asid s))\<rparr>,
       snd (new_asid s))"
    if "vcpu_asid_generation vcpu \<noteq> asid_generation s" for vcpu s
    using that by (simp add: pre_run_def split_beta)
  have after: "tlb_flush_all (vmcb (fst (pre_run vcpu (assign_asids ?n sd)))) \<and>
      vcpu_asid_generation (fst (pre_run vcpu (assign_asids ?n sd))) =
        asid_generation (snd (pre_run vcpu (assign_asids ?n sd)))"
    if "vcpu_asid_generation vcpu = asid_generation sd" for vcpu
  proof -
    from that last have "vcpu_asid_generation vcpu \<noteq> asid_generation (assign_asids ?n sd)"
      by simp
    from stale [OF this] show ?thesis
      by simp
  qed
  show ?thesis
    using gens last after stale
    by (simp add: new_asid_wrap new_asid_no_wrap pre_run_def)
qed

theorem asid_wraparound_once_witness:
  "FIRST_ASID \<le> next_asid \<lparr>cpu = 0, asid_generation = 7, max_asid = 3, next_asid = 2\<rparr> \<and>
   next_asid \<lparr>cpu = 0, asid_generation = 7, max_asid = 3, next_asid = 2\<rparr>
     \<le> max_asid \<lparr>cpu = 0, asid_generation = 7, max_asid = 3, next_asid = 2\<rparr> \<and>
   max_asid \<lparr>cpu = 0, asid_generation = 7, max_asid = 3, next_asid = 2\<rparr> < 0xFFFFFFFF \<and>
   asid_generation
     (assign_asids 4 \<lparr>cpu = 0, asid_generation = 7, max_asid = 3, next_asid = 2\<rparr>) = 8 \<and>
   (3::u32) < 4 \<and>
   new_asid \<lparr>cpu = 0, asid_generation = 7, max_asid = 3, next_asid = 4\<rparr> =
     (1, \<lparr>cpu = 0, asid_generation = 8, max_asid = 3, next_asid = 2\<rparr>) \<and>
   vcpu_asid_generation (vcpu_init 0) \<noteq> 8 \<and>
   tlb_flush_all (vmcb (fst (pre_run (vcpu_init 0)
     \<lparr>cpu = 0, asid_generation = 8, max_asid = 3, next_asid = 2\<rparr>)))"
proof -
  let ?sd = "\<lparr>cpu = 0, asid_generation = 7, max_asid = 3, next_asid = 2\<rparr>"
  have h: "FIRST_ASID \<le> next_asid ?sd" "next_asid ?sd \<le> max_asid ?sd"
    "max_asid ?sd < 0xFFFFFFFF"
    by (simp_all add: FIRST_ASID_def)
  have g: "vcpu_asid_generation (vcpu_init 0) \<noteq> 8"
    by (simp add: vcpu_init_def)
  note t = asid_wraparound_once [OF h]
  from t have "asid_generation (assign_asids (unat (max_asid ?sd) + 1) ?sd) =
      asid_generation ?sd + 1"
    by blast
  moreover from t have "new_asid \<lparr>cpu = 0, asid_generation = 7, max_asid = 3, next_asid = 4\<rparr> =
     (1, \<lparr>cpu = 0, asid_generation = 8, max_asid = 3, next_asid = 2\<rparr>)"
    by (simp add: FIRST_ASID_def)
  moreover from t g have "tlb_flush_all (vmcb (fst (pre_run (vcpu_init 0)
     \<lparr>cpu = 0, asid_generation = 8, max_asid = 3, next_asid = 2\<rparr>)))"
    by simp
  ultimately show ?thesis
    using h g by simp
qed

section \<open>The lazy register cache: flush and read\<close>

lemma reg_nr_less: "reg_nr r < 32"
  by (cases r) (simp_all add: reg_defs)

lemma bit_reg_bit: "bit (reg_bit r) n \<longleftrightarrow> n = reg_nr r"
  using reg_nr_less [of r] by (simp add: reg_bit_def bit_two_power_word)

lemma register_write_bits:
  "bit (regs_avail (register_write v r x)) (reg_nr r) \<and>
   bit (regs_dirty (register_write v r x)) (reg_nr r) \<and>
   regs (register_write v r x) r = x"
  by (simp add: register_write_def bit_or_iff bit_reg_bit)

lemma dirty_bit_avail:
  assumes "regs_dirty v AND NOT (regs_avail v) = 0" and "bit (regs_dirty v) n"
  shows "bit (regs_avail v) n"
proof -
  from assms(1) have "\<not> bit (regs_dirty v AND NOT (regs_avail v)) n"
    by simp
  with assms(2) bit_imp_le_length [OF assms(2)] show ?thesis
    by (simp add: bit_and_iff bit_not_iff)
qed

lemma dirty_within_avail_step:
  assumes "regs_dirty v AND NOT (regs_avail v) = 0"
  shows "regs_dirty (reg_step v a) AND NOT (regs_avail (reg_step v a)) = 0"
proof -
  have sub: "bit (regs_dirty v) n \<Longrightarrow> bit (regs_avail v) n" for n
    using assms by (rule dirty_bit_avail)
  show ?thesis
  proof (cases a)
    case (Read r)
    then show ?thesis
      using sub
      by (auto simp add: register_read_def cache_reg_def Let_def bit_eq_iff bit_and_iff
          bit_or_iff bit_not_iff)
  next
    case (Write r x)
    then show ?thesis
      using sub
      by (auto simp add: register_write_def bit_eq_iff bit_and_iff bit_or_iff bit_not_iff)
  next
    case Flush
    then show ?thesis
      by (simp add: flush_dirty_regs_def)
  qed
qed

lemma dirty_within_avail_steps:
  "regs_dirty v AND NOT (regs_avail v) = 0 \<Longrightarrow>
   regs_dirty (reg_steps v accs) AND NOT (regs_avail (reg_steps v accs)) = 0"
  unfolding reg_steps_def
  by (induction accs arbitrary: v) (simp_all add: dirty_within_avail_step)

lemma cached_read:
  "bit (regs_avail v) (reg_nr r) \<Longrightarrow> register_read v r = ((regs v r, FromCache), v)"
  by (simp add: register_read_def)

lemma reads_keep_cached:
  assumes "bit (regs_avail v) (reg_nr r)"
  shows "bit (regs_avail (reg_steps v (map Read rs))) (reg_nr r) \<and>
    regs (reg_steps v (map Read rs)) r = regs v r"
  using assms unfolding reg_steps_def
proof (induction rs arbitrary: v)
  case Nil
  then show ?case by simp
next
  case (Cons q rs)
  let ?v = "snd (register_read v q)"
  have "bit (regs_avail ?v) (reg_nr r) \<and> regs ?v r = regs v r"
    using Cons.prems
    by (auto simp add: register_read_def cache_reg_def Let_def bit_or_iff)
  with Cons.IH [of ?v] show ?case
    by simp
qed

text \<open>
  C9. Writing a register sets its "available" bit and its "dirty" bit and caches the value.
  The flush before a guest entry leaves the dirty bitmask exactly zero, keeps the available
  bitmask and the cached values, and stores the cached value of every dirty register in
  the hardware-visible state. Every dirty register of a VCPU is an available one: this
  holds for a new VCPU and is kept by every sequence of reads, writes and flushes. For such
  a VCPU the available bit of each flushed register is still set after the flush, and
  after any sequence of further reads a read of a flushed register returns the flushed
  value from the cache, without a fetch and without changing the VCPU.
\<close>

theorem lazy_register_cache:
  "bit (regs_avail (register_write v r x)) (reg_nr r) \<and>
   bit (regs_dirty (register_write v r x)) (reg_nr r) \<and>
   regs (register_write v r x) r = x \<and>
   regs_dirty (flush_dirty_regs v) = 0 \<and>
   regs_avail (flush_dirty_regs v) = regs_avail v \<and>
   regs (flush_dirty_regs v) = regs v \<and>
   (bit (regs_dirty v) (reg_nr r) \<longrightarrow>
      save_regs (vmcb (flush_dirty_regs v)) r = regs v r) \<and>
   regs_dirty (vcpu_init i) AND NOT (regs_avail (vcpu_init i)) = 0 \<and>
   (regs_dirty v AND NOT (regs_avail v) = 0 \<longrightarrow>
      regs_dirty (reg_steps v accs) AND NOT (regs_avail (reg_steps v accs)) = 0) \<and>
   (regs_dirty v AND NOT (regs_avail v) = 0 \<and> bit (regs_dirty v) (reg_nr r) \<longrightarrow>
      bit (regs_avail (flush_dirty_regs v)) (reg_nr r) \<and>
      (\<forall>rs. register_read (reg_steps (flush_dirty_regs v) (map Read rs)) r =
         ((regs v r, FromCache), reg_steps (flush_dirty_regs v) (map Read rs))))"
proof -
  have flush: "regs_dirty (flush_dirty_regs v) = 0 \<and>
      regs_avail (flush_dirty_regs v) = regs_avail v \<and>
      regs (flush_dirty_regs v) = regs v \<and>
      (bit (regs_dirty v) (reg_nr r) \<longrightarrow>
        save_regs (vmcb (flush_dirty_regs v)) r = regs v r)"
    by (simp add: flush_dirty_regs_def)
  have init: "regs_dirty (vcpu_init i) AND NOT (regs_avail (vcpu_init i)) = 0"
    by (simp add: vcpu_init_def)
  have reads: "bit (regs_avail (flush_dirty_regs v)) (reg_nr r) \<and>
      (\<forall>rs. register_read (reg_steps (flush_dirty_regs v) (map Read rs)) r =
         ((regs v r, FromCache), reg_steps (flush_dirty_regs v) (map Read rs)))"
    if inv: "regs_dirty v AND NOT (regs_avail v) = 0" and d: "bit (regs_dirty v) (reg_nr r)"
  proof -
    from inv d have "bit (regs_avail v) (reg_nr r)"
      by (rule dirty_bit_avail)
    then have a: "bit (regs_avail (flush_dirty_regs v)) (reg_nr r)"
      by (simp add: flush_dirty_regs_def)
    have "register_read (reg_steps (flush_dirty_regs v) (map Read rs)) r =
        ((regs v r, FromCache), reg_steps (flush_dirty_regs v) (map Read rs))" for rs
      using reads_keep_cached [OF a, of rs] flush by (simp add: cached_read)
    with a show ?thesis
      by simp
  qed
  from register_write_bits [of v r x] flush init dirty_within_avail_steps [of v accs] reads
  show ?thesis
    by (elim conjE, intro conjI impI) (assumption | simp)+
qed

theorem lazy_register_cache_witness:
  "regs_dirty (register_write (vcpu_init 0) RAX 5) AND
     NOT (regs_avail (register_write (vcpu_init 0) RAX 5)) = 0 \<and>
   bit (regs_dirty (register_write (vcpu_init 0) RAX 5)) (reg_nr RAX) \<and>
   regs_dirty (flush_dirty_regs (register_write (vcpu_init 0) RAX 5)) = 0 \<and>
   save_regs (vmcb (flush_dirty_regs (register_write (vcpu_init 0) RAX 5))) RAX = 5 \<and>
   register_read
     (reg_steps (flush_dirty_regs (register_write (vcpu_init 0) RAX 5)) (map Read [RCX, RAX]))
     RAX =
    ((5, FromCache),
     reg_steps (flush_dirty_regs (register_write (vcpu_init 0) RAX 5)) (map Read [RCX, RAX]))"
proof -
  let ?v = "register_write (vcpu_init 0) RAX 5"
  note t = lazy_register_cache [of ?v RAX 0 0 "[]"]
  have inv: "regs_dirty ?v AND NOT (regs_avail ?v) = 0"
    by (simp add: register_write_def vcpu_init_def)
  have d: "bit (regs_dirty ?v) (reg_nr RAX)"
    by (simp add: register_write_def vcpu_init_def reg_bit_def reg_defs)
  have val: "regs ?v RAX = 5"
    by (simp add: register_write_def)
  from t have z: "regs_dirty (flush_dirty_regs ?v) = 0"
    by blast
  from t d val have hw: "save_regs (vmcb (flush_dirty_regs ?v)) RAX = 5"
    by simp
  from t inv d have "\<forall>rs. register_read (reg_steps (flush_dirty_regs ?v) (map Read rs)) RAX =
      ((regs ?v RAX, FromCache), reg_steps (flush_dirty_regs ?v) (map Read rs))"
    by blast
  then have "register_read (reg_steps (flush_dirty_regs ?v) (map Read [RCX, RAX])) RAX =
      ((regs ?v RAX, FromCache), reg_steps (flush_dirty_regs ?v) (map Read [RCX, RAX]))"
    by (rule spec)
  with inv d z hw val show ?thesis
    by simp
qed

section \<open>Snapshots of an address space\<close>

lemma consistentI:
  assumes "distinct (map slot_id (memslots ms))"
    and "used_slots ms = int (length (memslots ms))"
    and "length (id_to_index ms) = nat VMRUN_MEM_SLOTS_NUM"
    and "\<And>k. k < length (memslots ms) \<Longrightarrow>
       0 \<le> slot_id (memslots ms ! k) \<and> slot_id (memslots ms ! k) < VMRUN_MEM_SLOTS_NUM \<and>
       id_to_index ms ! nat (slot_id (memslots ms ! k)) = int k"
    and "\<And>i. i < length (id_to_index ms) \<Longrightarrow>
       id_to_index ms ! i = -1 \<or>
       (0 \<le> id_to_index ms ! i \<and> id_to_index ms ! i < int (length (memslots ms)) \<and>
        slot_id (memslots ms ! nat (id_to_index ms ! i)) = int i)"
  shows "memslots_consistent ms"
  using assms unfolding memslots_consistent_def by blast

lemma consistent_distinct: "memslots_consistent ms \<Longrightarrow> distinct (map slot_id (memslots ms))"
  by (simp add: memslots_consistent_def)

lemma consistent_used: "memslots_consistent ms \<Longrightarrow> used_slots ms = int (length (memslots ms))"
  by (simp add: memslots_consistent_def)

lemma consistent_length:
  "memslots_consistent ms \<Longrightarrow> length (id_to_index ms) = nat VMRUN_MEM_SLOTS_NUM"
  by (simp add: memslots_consistent_def)

lemma consistent_slot:
  "memslots_consistent ms \<Longrightarrow> k < length (memslots ms) \<Longrightarrow>
   0 \<le> slot_id (memslots ms ! k) \<and> slot_id (memslots ms ! k) < VMRUN_MEM_SLOTS_NUM \<and>
   id_to_index ms ! nat (slot_id (memslots ms ! k)) = int k"
  by (simp add: memslots_consistent_def)

lemma consistent_entry:
  "memslots_consistent ms \<Longrightarrow> i < length (id_to_index ms) \<Longrightarrow>
   id_to_index ms ! i = -1 \<or>
   (0 \<le> id_to_index ms ! i \<and> id_to_index ms ! i < int (length (memslots ms)) \<and>
    slot_id (memslots ms ! nat (id_to_index ms ! i)) = int i)"
  by (simp add: memslots_consistent_def)

lemma empty_memslots_consistent: "memslots_consistent empty_memslots"
  by (simp add: memslots_consistent_def empty_memslots_def)

text \<open>What the table says about an id of the id space in a consistent snapshot.\<close>

lemma free_id_has_no_slot:
  assumes c: "memslots_consistent ms"
    and none: "id_to_memslot ms sid = None"
    and k: "k < length (memslots ms)"
  shows "slot_id (memslots ms ! k) \<noteq> sid"
proof
  assume "slot_id (memslots ms ! k) = sid"
  with consistent_slot [OF c k] have "id_to_index ms ! nat sid = int k"
    by simp
  with none show False
    by (simp add: id_to_memslot_def Let_def)
qed

lemma occupied_id_index:
  assumes c: "memslots_consistent ms"
    and sid: "0 \<le> sid" "sid < VMRUN_MEM_SLOTS_NUM"
    and some: "id_to_memslot ms sid = Some old"
  shows "0 \<le> id_to_index ms ! nat sid \<and>
    nat (id_to_index ms ! nat sid) < length (memslots ms) \<and>
    old = memslots ms ! nat (id_to_index ms ! nat sid) \<and>
    slot_id old = sid"
proof -
  from sid consistent_length [OF c] have "nat sid < length (id_to_index ms)"
    by simp
  from consistent_entry [OF c this] some sid show ?thesis
    by (auto simp add: id_to_memslot_def Let_def split: if_splits)
qed

lemma create_slot_consistent:
  assumes c: "memslots_consistent ms"
    and sid: "0 \<le> sid" "sid < VMRUN_MEM_SLOTS_NUM"
    and none: "id_to_memslot ms sid = None"
  shows "memslots_consistent (create_slot ms sid base n uaddr fl)"
proof (rule consistentI)
  let ?ms = "create_slot ms sid base n uaddr fl"
  let ?xs = "memslots ms"
  let ?T = "id_to_index ms"
  have xs': "memslots ?ms = ?xs @ [\<lparr>base_gfn = base, npages = n,
      dirty_bitmap = zeroed_bitmap fl n, userspace_addr = uaddr, flags = fl, slot_id = sid\<rparr>]"
    and T': "id_to_index ?ms = ?T[nat sid := int (length ?xs)]"
    by (simp_all add: create_slot_def consistent_used [OF c])
  from sid consistent_length [OF c] have inT: "nat sid < length ?T"
    by simp
  have fresh: "slot_id (?xs ! k) \<noteq> sid" if "k < length ?xs" for k
    using c none that by (rule free_id_has_no_slot)
  then have "sid \<notin> slot_id ` set ?xs"
    by (fastforce simp add: in_set_conv_nth)
  with consistent_distinct [OF c] show "distinct (map slot_id (memslots ?ms))"
    by (simp add: xs')
  show "used_slots ?ms = int (length (memslots ?ms))"
    by (simp add: create_slot_def consistent_used [OF c])
  show "length (id_to_index ?ms) = nat VMRUN_MEM_SLOTS_NUM"
    by (simp add: T' consistent_length [OF c])
  show "0 \<le> slot_id (memslots ?ms ! k) \<and> slot_id (memslots ?ms ! k) < VMRUN_MEM_SLOTS_NUM \<and>
      id_to_index ?ms ! nat (slot_id (memslots ?ms ! k)) = int k"
    if "k < length (memslots ?ms)" for k
  proof (cases "k < length ?xs")
    case True
    from consistent_slot [OF c True] fresh [OF True] sid
    have "nat (slot_id (?xs ! k)) \<noteq> nat sid"
      by (simp add: eq_nat_nat_iff)
    with consistent_slot [OF c True] True show ?thesis
      by (simp add: xs' T' nth_append)
  next
    case False
    with that have "k = length ?xs"
      by (simp add: xs')
    with sid inT show ?thesis
      by (simp add: xs' T')
  qed
  show "id_to_index ?ms ! i = -1 \<or>
      (0 \<le> id_to_index ?ms ! i \<and> id_to_index ?ms ! i < int (length (memslots ?ms)) \<and>
       slot_id (memslots ?ms ! nat (id_to_index ?ms ! i)) = int i)"
    if "i < length (id_to_index ?ms)" for i
  proof (cases "i = nat sid")
    case True
    with sid inT show ?thesis
      by (simp add: xs' T')
  next
    case False
    from that have "i < length ?T"
      by (simp add: T')
    from consistent_entry [OF c this] False show ?thesis
      by (auto simp add: xs' T' nth_append)
  qed
qed

lemma nth_remove:
  "k < length xs \<Longrightarrow> m < length xs - 1 \<Longrightarrow>
   (take k xs @ drop (Suc k) xs) ! m = (if m < k then xs ! m else xs ! Suc m)"
  by (auto simp add: nth_append min_def)

lemma distinct_remove:
  "distinct ys \<Longrightarrow> distinct (take k ys @ drop (Suc k) ys)"
  by (simp add: set_take_disj_set_drop_if_distinct)

lemma delete_slot_consistent:
  assumes c: "memslots_consistent ms"
    and sid: "0 \<le> sid" "sid < VMRUN_MEM_SLOTS_NUM"
    and some: "id_to_memslot ms sid = Some old"
  shows "memslots_consistent (delete_slot ms sid)"
proof (rule consistentI)
  let ?ms = "delete_slot ms sid"
  let ?xs = "memslots ms"
  let ?T = "id_to_index ms"
  define K where "K = id_to_index ms ! nat sid"
  define k where "k = nat K"
  define f where "f = (\<lambda>j. if j = K then -1 else if K < j then j - 1 else j)"
  from occupied_id_index [OF c sid some]
  have K0: "0 \<le> K" and kn: "k < length ?xs" and Kk: "K = int k"
    by (simp_all add: K_def k_def)
  have xs': "memslots ?ms = take k ?xs @ drop (Suc k) ?xs"
    and T': "id_to_index ?ms = map f ?T"
    by (simp_all add: delete_slot_def Let_def K_def k_def f_def)
  have len: "length (memslots ?ms) = length ?xs - 1"
    using kn by (simp add: xs')
  have nth: "memslots ?ms ! m = (if m < k then ?xs ! m else ?xs ! Suc m)"
    if "m < length ?xs - 1" for m
    unfolding xs' using kn that by (rule nth_remove)
  from consistent_distinct [OF c]
  have "distinct (take k (map slot_id ?xs) @ drop (Suc k) (map slot_id ?xs))"
    by (rule distinct_remove)
  then show "distinct (map slot_id (memslots ?ms))"
    by (simp add: xs' take_map drop_map)
  have "used_slots ?ms = int (length ?xs) - 1"
    by (simp add: delete_slot_def Let_def consistent_used [OF c])
  also have "\<dots> = int (length ?xs - 1)"
    using kn by (simp add: of_nat_diff)
  finally show "used_slots ?ms = int (length (memslots ?ms))"
    by (simp only: len)
  show "length (id_to_index ?ms) = nat VMRUN_MEM_SLOTS_NUM"
    by (simp add: T' consistent_length [OF c])
  show "0 \<le> slot_id (memslots ?ms ! m) \<and> slot_id (memslots ?ms ! m) < VMRUN_MEM_SLOTS_NUM \<and>
      id_to_index ?ms ! nat (slot_id (memslots ?ms ! m)) = int m"
    if "m < length (memslots ?ms)" for m
  proof (cases "m < k")
    case True
    with kn have m: "m < length ?xs"
      by simp
    have inT: "nat (slot_id (?xs ! m)) < length ?T"
      using consistent_slot [OF c m] consistent_length [OF c] by simp
    from that True consistent_slot [OF c m] show ?thesis
      by (simp add: nth len T' nth_map [OF inT] f_def Kk)
  next
    case False
    from that have m: "Suc m < length ?xs"
      by (simp add: len)
    have inT: "nat (slot_id (?xs ! Suc m)) < length ?T"
      using consistent_slot [OF c m] consistent_length [OF c] by simp
    from that False consistent_slot [OF c m] show ?thesis
      by (simp add: nth len T' nth_map [OF inT] f_def Kk)
  qed
  show "id_to_index ?ms ! i = -1 \<or>
      (0 \<le> id_to_index ?ms ! i \<and> id_to_index ?ms ! i < int (length (memslots ?ms)) \<and>
       slot_id (memslots ?ms ! nat (id_to_index ?ms ! i)) = int i)"
    if "i < length (id_to_index ?ms)" for i
  proof -
    from that have i: "i < length ?T"
      by (simp add: T')
    then have Ti: "id_to_index ?ms ! i = f (?T ! i)"
      by (simp add: T')
    from consistent_entry [OF c i] show ?thesis
    proof
      assume "?T ! i = -1"
      with K0 show ?thesis
        by (simp add: Ti f_def)
    next
      assume e: "0 \<le> ?T ! i \<and> ?T ! i < int (length ?xs) \<and>
        slot_id (?xs ! nat (?T ! i)) = int i"
      define j where "j = nat (?T ! i)"
      with e have j: "?T ! i = int j" "j < length ?xs" "slot_id (?xs ! j) = int i"
        by auto
      consider "j = k" | "j < k" | "k < j"
        by linarith
      then show ?thesis
      proof cases
        case 1
        then show ?thesis
          by (simp add: Ti f_def j Kk)
      next
        case 2
        with kn have "j < length ?xs - 1"
          by simp
        from nth [OF this] 2 j kn show ?thesis
          by (simp add: Ti f_def Kk len)
      next
        case 3
        with j have b: "j - 1 < length ?xs - 1" and nk: "\<not> j - 1 < k" and S: "Suc (j - 1) = j"
          by simp_all
        from nth [OF b] nk S have slot: "memslots ?ms ! (j - 1) = ?xs ! j"
          by simp
        from 3 have "f (int j) = int (j - 1)"
          by (simp add: f_def Kk of_nat_diff)
        then have entry: "id_to_index ?ms ! i = int (j - 1)"
          by (simp only: Ti j)
        have "int (j - 1) < int (length (memslots ?ms))"
          using b by (simp only: len of_nat_less_iff)
        moreover have "slot_id (memslots ?ms ! nat (int (j - 1))) = int i"
          by (simp only: nat_int slot j)
        ultimately show ?thesis
          by (simp only: entry) simp
      qed
    qed
  qed
qed

lemma update_slot_consistent:
  assumes c: "memslots_consistent ms"
    and k: "k < length (memslots ms)"
    and same: "slot_id s = slot_id (memslots ms ! k)"
  shows "memslots_consistent (ms\<lparr>generation := g, memslots := (memslots ms)[k := s], lru_slot := l\<rparr>)"
proof -
  have ids: "map slot_id ((memslots ms)[k := s]) = map slot_id (memslots ms)"
    using k same by (simp add: map_update list_update_same_conv)
  have nth: "slot_id ((memslots ms)[k := s] ! m) = slot_id (memslots ms ! m)"
    if "m < length (memslots ms)" for m
    using that same by (cases "m = k") simp_all
  show ?thesis
  proof (rule consistentI)
    let ?ms = "ms\<lparr>generation := g, memslots := (memslots ms)[k := s], lru_slot := l\<rparr>"
    show "distinct (map slot_id (memslots ?ms))"
      using consistent_distinct [OF c] by (simp add: ids)
    show "used_slots ?ms = int (length (memslots ?ms))"
      using consistent_used [OF c] by simp
    show "length (id_to_index ?ms) = nat VMRUN_MEM_SLOTS_NUM"
      using consistent_length [OF c] by simp
    show "0 \<le> slot_id (memslots ?ms ! m) \<and> slot_id (memslots ?ms ! m) < VMRUN_MEM_SLOTS_NUM \<and>
        id_to_index ?ms ! nat (slot_id (memslots ?ms ! m)) = int m"
      if "m < length (memslots ?ms)" for m
    proof -
      from that have m: "m < length (memslots ms)"
        by simp
      from consistent_slot [OF c m] nth [OF m] show ?thesis
        by simp
    qed
    show "id_to_index ?ms ! i = -1 \<or>
        (0 \<le> id_to_index ?ms ! i \<and> id_to_index ?ms ! i < int (length (memslots ?ms)) \<and>
         slot_id (memslots ?ms ! nat (id_to_index ?ms ! i)) = int i)"
      if "i < length (id_to_index ?ms)" for i
    proof -
      from that have i: "i < length (id_to_index ms)"
        by simp
      from consistent_entry [OF c i] show ?thesis
      proof
        assume "id_to_index ms ! i = -1"
        then show ?thesis
          by simp
      next
        assume e: "0 \<le> id_to_index ms ! i \<and> id_to_index ms ! i < int (length (memslots ms)) \<and>
          slot_id (memslots ms ! nat (id_to_index ms ! i)) = int i"
        then have "nat (id_to_index ms ! i) < length (memslots ms)"
          by auto
        from nth [OF this] e show ?thesis
          by simp
      qed
    qed
  qed
qed

lemma word_less_succ:
  fixes x :: "'a::len word"
  assumes "x \<noteq> - 1"
  shows "x < x + 1"
proof -
  from assms have "1 + x \<noteq> 0"
    by (simp add: add_eq_0_iff)
  then have "unat (1 + x) = Suc (unat x)"
    by (rule unatSuc)
  then show ?thesis
    by (simp add: word_less_nat_alt add.commute)
qed

lemma ranges_intersect_iff:
  "ranges_intersect b1 n1 b2 n2 \<longleftrightarrow> gfn_range b1 n1 \<inter> gfn_range b2 n2 \<noteq> {}"
  by (auto simp add: ranges_intersect_def gfn_range_def)

lemma overlaps_existing_iff:
  "overlaps_existing ms base n \<longleftrightarrow>
   (\<exists>s \<in> set (memslots ms). gfn_range base n \<inter> gfn_range (base_gfn s) (npages s) \<noteq> {})"
  by (simp add: overlaps_existing_def list_ex_iff ranges_intersect_iff)

lemma classify_create_iff:
  "classify ms sid base n uaddr fl = Inr VMRUN_MR_CREATE \<longleftrightarrow>
   0 \<le> sid \<and> sid < VMRUN_MEM_SLOTS_NUM \<and> id_to_memslot ms sid = None \<and> n \<noteq> 0"
  by (auto simp add: classify_def split: option.splits if_splits)

lemma classify_modify:
  assumes "classify ms sid base n uaddr fl = Inr ch" and "ch \<noteq> VMRUN_MR_CREATE"
  shows "0 \<le> sid \<and> sid < VMRUN_MEM_SLOTS_NUM \<and> (\<exists>old. id_to_memslot ms sid = Some old)"
  using assms by (auto simp add: classify_def split: option.splits if_splits)

lemma set_memory_region_failure:
  "set_memory_region ms sid base n uaddr fl = (Inl e, ms') \<Longrightarrow> ms' = ms"
  by (auto simp add: set_memory_region_def split: sum.splits vmrun_mr_change.splits if_splits)

lemma set_memory_region_generation:
  "set_memory_region ms sid base n uaddr fl = (Inr ch, ms') \<Longrightarrow>
   generation ms' = generation ms + 1"
  by (auto simp add: set_memory_region_def create_slot_def delete_slot_def move_slot_def
      set_slot_flags_def Let_def split: sum.splits vmrun_mr_change.splits if_splits)

lemma set_memory_region_consistent:
  assumes r: "set_memory_region ms sid base n uaddr fl = (Inr ch, ms')"
    and c: "memslots_consistent ms"
  shows "memslots_consistent ms'"
proof -
  from r have cl: "classify ms sid base n uaddr fl = Inr ch"
    by (auto simp add: set_memory_region_def split: sum.splits vmrun_mr_change.splits
        if_splits)
  show ?thesis
  proof (cases ch)
    case VMRUN_MR_CREATE
    with cl have "0 \<le> sid" "sid < VMRUN_MEM_SLOTS_NUM" "id_to_memslot ms sid = None"
      by (simp_all add: classify_create_iff)
    from create_slot_consistent [OF c this] r cl VMRUN_MR_CREATE show ?thesis
      by (auto simp add: set_memory_region_def split: if_splits)
  next
    case VMRUN_MR_DELETE
    with classify_modify [OF cl] obtain old
      where s: "0 \<le> sid" "sid < VMRUN_MEM_SLOTS_NUM" "id_to_memslot ms sid = Some old"
      by auto
    from delete_slot_consistent [OF c s] r cl VMRUN_MR_DELETE show ?thesis
      by (simp add: set_memory_region_def)
  next
    case VMRUN_MR_MOVE
    with classify_modify [OF cl] obtain old
      where s: "0 \<le> sid" "sid < VMRUN_MEM_SLOTS_NUM" "id_to_memslot ms sid = Some old"
      by auto
    let ?k = "nat (id_to_index ms ! nat sid)"
    from occupied_id_index [OF c s] have k: "?k < length (memslots ms)"
      by simp
    have "memslots_consistent (move_slot ms sid base uaddr)"
      unfolding move_slot_def Let_def
      by (rule update_slot_consistent [OF c k]) simp
    with r cl VMRUN_MR_MOVE show ?thesis
      by (simp add: set_memory_region_def)
  next
    case VMRUN_MR_FLAGS_ONLY
    with classify_modify [OF cl] obtain old
      where s: "0 \<le> sid" "sid < VMRUN_MEM_SLOTS_NUM" "id_to_memslot ms sid = Some old"
      by auto
    let ?k = "nat (id_to_index ms ! nat sid)"
    from occupied_id_index [OF c s] have k: "?k < length (memslots ms)"
      by simp
    have "memslots_consistent (set_slot_flags ms sid fl)"
      unfolding set_slot_flags_def Let_def
      by (rule update_slot_consistent [OF c k]) simp
    with r cl VMRUN_MR_FLAGS_ONLY show ?thesis
      by (simp add: set_memory_region_def)
  qed
qed

lemma published_invariant:
  assumes "memslots_consistent ms" and "k < length (published ms rs)"
  shows "memslots_consistent (published ms rs ! k) \<and>
    generation (published ms rs ! k) = generation ms + of_nat k"
  using assms
proof (induction rs arbitrary: ms k)
  case Nil
  then show ?case by simp
next
  case (Cons r rs)
  show ?case
  proof (cases "request ms r")
    case (Pair res ms')
    show ?thesis
    proof (cases res)
      case (Inl e)
      with Pair Cons show ?thesis
        by simp
    next
      case (Inr ch)
      with Pair have step: "set_memory_region ms (mr_slot r) (mr_base_gfn r) (mr_npages r)
          (mr_userspace_addr r) (mr_flags r) = (Inr ch, ms')"
        by (simp add: request_def)
      have pub: "published ms (r # rs) = ms # published ms' rs"
        using Pair Inr by simp
      show ?thesis
      proof (cases k)
        case 0
        with Cons.prems pub show ?thesis
          by simp
      next
        case (Suc j)
        with Cons.prems pub have j: "j < length (published ms' rs)"
          by simp
        from set_memory_region_consistent [OF step Cons.prems(1)]
        have "memslots_consistent ms'" .
        from Cons.IH [OF this j] set_memory_region_generation [OF step] Suc pub
        show ?thesis
          by (simp add: add.assoc)
      qed
    qed
  qed
qed

text \<open>
  C1. Take any sequence of requests on one address space, starting from a consistent
  snapshot (the empty snapshot of a new address space, of generation 0, is one). Every
  snapshot published in the course of it is internally consistent: its slot ids are
  unique, and \<open>id_to_index\<close> maps the id of each slot to the index of that slot in the slot
  array (and every other id to \<open>-1\<close>). The \<open>k\<close>-th published snapshot has the generation of
  the first plus \<open>k\<close>: each applied mutation, be it a create, a delete, a move or a change
  of flags, publishes a snapshot whose generation is the previous generation plus exactly
  one, in the arithmetic of the \<open>u64\<close> counter, which is a strict increase unless the
  counter is at its last value.
\<close>

theorem snapshot_generations:
  assumes "memslots_consistent ms0"
  shows
    "(\<forall>k < length (published ms0 rs).
        memslots_consistent (published ms0 rs ! k) \<and>
        generation (published ms0 rs ! k) = generation ms0 + of_nat k) \<and>
     (\<forall>k. Suc k < length (published ms0 rs) \<longrightarrow>
        generation (published ms0 rs ! Suc k) = generation (published ms0 rs ! k) + 1 \<and>
        (generation (published ms0 rs ! k) \<noteq> - 1 \<longrightarrow>
           generation (published ms0 rs ! k) < generation (published ms0 rs ! Suc k))) \<and>
     (\<forall>ms sid base n uaddr fl ch ms'.
        set_memory_region ms sid base n uaddr fl = (Inr ch, ms') \<longrightarrow>
        generation ms' = generation ms + 1 \<and>
        (memslots_consistent ms \<longrightarrow> memslots_consistent ms')) \<and>
     memslots_consistent empty_memslots \<and> generation empty_memslots = 0"
proof -
  note inv = published_invariant [OF assms]
  have seq: "generation (published ms0 rs ! Suc k) = generation (published ms0 rs ! k) + 1 \<and>
      (generation (published ms0 rs ! k) \<noteq> - 1 \<longrightarrow>
         generation (published ms0 rs ! k) < generation (published ms0 rs ! Suc k))"
    if "Suc k < length (published ms0 rs)" for k
  proof -
    from that have "k < length (published ms0 rs)"
      by simp
    from inv [OF this] inv [OF that]
    have "generation (published ms0 rs ! Suc k) = generation (published ms0 rs ! k) + 1"
      by simp
    then show ?thesis
      by (simp add: word_less_succ)
  qed
  have step: "generation ms' = generation ms + 1 \<and>
      (memslots_consistent ms \<longrightarrow> memslots_consistent ms')"
    if "set_memory_region ms sid base n uaddr fl = (Inr ch, ms')"
    for ms sid base n uaddr fl ch ms'
    using set_memory_region_generation [OF that] set_memory_region_consistent [OF that]
    by simp
  have empty: "memslots_consistent empty_memslots \<and> generation empty_memslots = 0"
    by (simp add: empty_memslots_consistent) (simp add: empty_memslots_def)
  from inv seq step empty show ?thesis
    by blast
qed

theorem snapshot_generations_witness:
  "memslots_consistent empty_memslots \<and>
   length (published empty_memslots
     [\<lparr>mr_slot = 0, mr_base_gfn = 0, mr_npages = 256, mr_userspace_addr = 0x10000, mr_flags = 0\<rparr>,
      \<lparr>mr_slot = 0, mr_base_gfn = 0, mr_npages = 0, mr_userspace_addr = 0, mr_flags = 0\<rparr>,
      \<lparr>mr_slot = 0, mr_base_gfn = 512, mr_npages = 16, mr_userspace_addr = 0x10000, mr_flags = 0\<rparr>]) = 4 \<and>
   memslots_consistent (published empty_memslots
     [\<lparr>mr_slot = 0, mr_base_gfn = 0, mr_npages = 256, mr_userspace_addr = 0x10000, mr_flags = 0\<rparr>,
      \<lparr>mr_slot = 0, mr_base_gfn = 0, mr_npages = 0, mr_userspace_addr = 0, mr_flags = 0\<rparr>,
      \<lparr>mr_slot = 0, mr_base_gfn = 512, mr_npages = 16, mr_userspace_addr = 0x10000, mr_flags = 0\<rparr>] ! 3) \<and>
   generation (published empty_memslots
     [\<lparr>mr_slot = 0, mr_base_gfn = 0, mr_npages = 256, mr_userspace_addr = 0x10000, mr_flags = 0\<rparr>,
      \<lparr>mr_slot = 0, mr_base_gfn = 0, mr_npages = 0, mr_userspace_addr = 0, mr_flags = 0\<rparr>,
      \<lparr>mr_slot = 0, mr_base_gfn = 512, mr_npages = 16, mr_userspace_addr = 0x10000, mr_flags = 0\<rparr>] ! 3) = 3"
proof -
  let ?rs = "[\<lparr>mr_slot = 0, mr_base_gfn = 0, mr_npages = 256, mr_userspace_addr = 0x10000, mr_flags = 0\<rparr>,
      \<lparr>mr_slot = 0, mr_base_gfn = 0, mr_npages = 0, mr_userspace_addr = 0, mr_flags = 0\<rparr>,
      \<lparr>mr_slot = 0, mr_base_gfn = 512, mr_npages = 16, mr_userspace_addr = 0x10000, mr_flags = 0\<rparr>]"
  have e: "memslots_consistent empty_memslots"
    by (simp add: memslots_consistent_def empty_memslots_def)
  have len: "length (published empty_memslots ?rs) = 4"
    by (simp add: request_def set_memory_region_def classify_def id_to_memslot_def
        empty_memslots_def overlaps_existing_def create_slot_def delete_slot_def slot_defs)
  from snapshot_generations [OF e, of ?rs]
  have "\<forall>k < length (published empty_memslots ?rs).
      memslots_consistent (published empty_memslots ?rs ! k) \<and>
      generation (published empty_memslots ?rs ! k) = generation empty_memslots + of_nat k"
    by blast
  with len have "memslots_consistent (published empty_memslots ?rs ! 3) \<and>
      generation (published empty_memslots ?rs ! 3) = generation empty_memslots + of_nat 3"
    by simp
  with e len show ?thesis
    by (simp add: empty_memslots_def)
qed

text \<open>
  C2. A create request (a request for pages at a free id of the id space) whose range of
  guest frames \<open>[base_gfn, base_gfn + npages)\<close> shares a frame with the range of a slot of
  the address space fails with \<open>Overlap\<close>, and the published snapshot stays the one it
  was: no slot is added or changed, the generation is not incremented, and the run of
  requests goes on as if the request had not been made. A create request that overlaps no
  slot is applied. Whatever the request and the error, a request that fails publishes
  nothing: the snapshot after it is the snapshot before it.
\<close>

theorem create_overlap_rejected:
  "(classify ms sid base n uaddr fl = Inr VMRUN_MR_CREATE \<and>
      (\<exists>s \<in> set (memslots ms).
         gfn_range base n \<inter> gfn_range (base_gfn s) (npages s) \<noteq> {}) \<longrightarrow>
      set_memory_region ms sid base n uaddr fl = (Inl Overlap, ms) \<and>
      published ms (\<lparr>mr_slot = sid, mr_base_gfn = base, mr_npages = n,
        mr_userspace_addr = uaddr, mr_flags = fl\<rparr> # rs) = published ms rs) \<and>
   (classify ms sid base n uaddr fl = Inr VMRUN_MR_CREATE \<and>
      \<not> (\<exists>s \<in> set (memslots ms).
         gfn_range base n \<inter> gfn_range (base_gfn s) (npages s) \<noteq> {}) \<longrightarrow>
      set_memory_region ms sid base n uaddr fl =
        (Inr VMRUN_MR_CREATE, create_slot ms sid base n uaddr fl)) \<and>
   (classify ms sid base n uaddr fl = Inr VMRUN_MR_CREATE \<longleftrightarrow>
      0 \<le> sid \<and> sid < VMRUN_MEM_SLOTS_NUM \<and> id_to_memslot ms sid = None \<and> n \<noteq> 0) \<and>
   (\<forall>e. fst (set_memory_region ms sid base n uaddr fl) = Inl e \<longrightarrow>
      snd (set_memory_region ms sid base n uaddr fl) = ms)"
proof -
  have rej: "set_memory_region ms sid base n uaddr fl = (Inl Overlap, ms) \<and>
      published ms (\<lparr>mr_slot = sid, mr_base_gfn = base, mr_npages = n,
        mr_userspace_addr = uaddr, mr_flags = fl\<rparr> # rs) = published ms rs"
    if "classify ms sid base n uaddr fl = Inr VMRUN_MR_CREATE"
      and "\<exists>s \<in> set (memslots ms). gfn_range base n \<inter> gfn_range (base_gfn s) (npages s) \<noteq> {}"
  proof -
    from that(2) have "overlaps_existing ms base n"
      by (simp only: overlaps_existing_iff)
    with that(1) have "set_memory_region ms sid base n uaddr fl = (Inl Overlap, ms)"
      by (simp add: set_memory_region_def)
    then show ?thesis
      by (simp add: request_def)
  qed
  have acc: "set_memory_region ms sid base n uaddr fl =
        (Inr VMRUN_MR_CREATE, create_slot ms sid base n uaddr fl)"
    if "classify ms sid base n uaddr fl = Inr VMRUN_MR_CREATE"
      and "\<not> (\<exists>s \<in> set (memslots ms).
        gfn_range base n \<inter> gfn_range (base_gfn s) (npages s) \<noteq> {})"
  proof -
    from that(2) have "\<not> overlaps_existing ms base n"
      by (simp add: overlaps_existing_iff)
    with that(1) show ?thesis
      by (simp add: set_memory_region_def)
  qed
  have fail: "snd (set_memory_region ms sid base n uaddr fl) = ms"
    if "fst (set_memory_region ms sid base n uaddr fl) = Inl e" for e
    using that set_memory_region_failure [of ms sid base n uaddr fl e]
    by (cases "set_memory_region ms sid base n uaddr fl") simp
  from rej acc classify_create_iff [of ms sid base n uaddr fl] fail show ?thesis
    by blast
qed

theorem create_overlap_rejected_witness:
  "classify (create_slot empty_memslots 0 0 256 0x10000 0) 1 128 64 0x20000 0 =
     Inr VMRUN_MR_CREATE \<and>
   (\<exists>s \<in> set (memslots (create_slot empty_memslots 0 0 256 0x10000 0)).
      gfn_range 128 64 \<inter> gfn_range (base_gfn s) (npages s) \<noteq> {}) \<and>
   set_memory_region (create_slot empty_memslots 0 0 256 0x10000 0) 1 128 64 0x20000 0 =
     (Inl Overlap, create_slot empty_memslots 0 0 256 0x10000 0)"
proof -
  let ?ms = "create_slot empty_memslots 0 0 256 0x10000 0"
  have c: "classify ?ms 1 128 64 0x20000 0 = Inr VMRUN_MR_CREATE"
    by (simp add: classify_def id_to_memslot_def create_slot_def empty_memslots_def slot_defs)
  have o: "\<exists>s \<in> set (memslots ?ms).
      gfn_range 128 64 \<inter> gfn_range (base_gfn s) (npages s) \<noteq> {}"
    by (simp add: create_slot_def empty_memslots_def gfn_range_def)
  from create_overlap_rejected [of ?ms 1 128 64 "0x20000" 0 "[]"] c o show ?thesis
    by blast
qed

end
